theory Spec2Isabelle
  imports Main "HOL-Library.Char_ord" "HOL-Library.List_Lexorder" "HOL-Library.Multiset"
begin

section \<open>Data model of the Git view contribution\<close>

text \<open>
  The development embeds \<^verbatim>\<open>packages/git/src/browser/git-view-contribution.ts\<close>:
  the class \<^verbatim>\<open>GitViewContribution\<close> and the provider hub \<^verbatim>\<open>ScmProviderImpl\<close>.

  JavaScript strings are modelled as \<^typ>\<open>string\<close>. A string is truthy exactly when
  it is not empty; an object is always truthy; \<^verbatim>\<open>undefined\<close> is \<^term>\<open>None\<close>.
\<close>

text \<open>
  Modelled from the spec: the enum \<^verbatim>\<open>GitFileStatus\<close> is declared in
  \<^verbatim>\<open>../common\<close>; the members are the ones the data model of the
  specification lists for a file change. A TypeScript numeric enum numbers its members
  from zero and carries the reverse mapping from the number to the member's name.
\<close>

datatype GitFileStatus = New | Modified | Deleted | Renamed | Copied | Conflicted

fun GitFileStatus_valueOf :: "GitFileStatus \<Rightarrow> nat" where
  "GitFileStatus_valueOf New = 0"
| "GitFileStatus_valueOf Modified = 1"
| "GitFileStatus_valueOf Deleted = 2"
| "GitFileStatus_valueOf Renamed = 3"
| "GitFileStatus_valueOf Copied = 4"
| "GitFileStatus_valueOf Conflicted = 5"

text \<open>The reverse mapping \<^verbatim>\<open>GitFileStatus[n]\<close>; \<^verbatim>\<open>undefined\<close> off the enum.\<close>

definition GitFileStatus_reverse :: "nat \<Rightarrow> string option" where
  "GitFileStatus_reverse n =
     (if n = 0 then Some ''New''
      else if n = 1 then Some ''Modified''
      else if n = 2 then Some ''Deleted''
      else if n = 3 then Some ''Renamed''
      else if n = 4 then Some ''Copied''
      else if n = 5 then Some ''Conflicted''
      else None)"

text \<open>
  \<^verbatim>\<open>GitFileChange\<close>: the \<^verbatim>\<open>staged\<close> flag is only ever tested for
  truthiness, so an absent flag and \<^verbatim>\<open>false\<close> are the same value here.
\<close>

record GitFileChange =
  uri :: string
  status :: GitFileStatus
  staged :: bool

record AheadBehind =
  ahead :: nat
  behind :: nat

record WorkingDirectoryStatus =
  branch :: "string option"
  currentHead :: "string option"
  upstreamBranch :: "string option"
  aheadBehind :: "AheadBehind option"
  changes :: "GitFileChange list"

section \<open>The status-bar text of the checkout command\<close>

text \<open>\<^verbatim>\<open>changes.some(c => c.status === GitFileStatus.Conflicted)\<close>\<close>

definition hasConflicts :: "GitFileChange list \<Rightarrow> bool" where
  "hasConflicts cs = list_ex (\<lambda>c. status c = Conflicted) cs"

text \<open>\<^verbatim>\<open>!changes.some(c => !c.staged)\<close>\<close>

definition allStaged :: "GitFileChange list \<Rightarrow> bool" where
  "allStaged cs = (\<not> list_ex (\<lambda>c. \<not> staged c) cs)"

text \<open>
  The local variable \<^verbatim>\<open>dirty\<close> of the Git event handler in \<^verbatim>\<open>onStart\<close>,
  with the nesting of the source.
\<close>

definition dirtyMarker :: "GitFileChange list \<Rightarrow> string" where
  "dirtyMarker cs =
     (if length cs > 0 then
        (let conflicts = hasConflicts cs; stagedAll = allStaged cs in
         if conflicts \<or> stagedAll then
           (if conflicts then ''!'' else if stagedAll then ''+'' else '''')
         else ''*'')
      else '''')"

text \<open>
  The local variable \<^verbatim>\<open>branch\<close>: the branch name when it is truthy, else the
  first eight characters of the current head when that is truthy, else \<^verbatim>\<open>NO-HEAD\<close>.
\<close>

definition truthy :: "string option \<Rightarrow> bool" where
  "truthy s = (case s of None \<Rightarrow> False | Some v \<Rightarrow> v \<noteq> [])"

definition branchName :: "WorkingDirectoryStatus \<Rightarrow> string" where
  "branchName st =
     (if truthy (branch st) then the (branch st)
      else if truthy (currentHead st) then take 8 (the (currentHead st))
      else ''NO-HEAD'')"

definition checkoutText :: "WorkingDirectoryStatus \<Rightarrow> string" where
  "checkoutText st = ''$(code-fork) '' @ branchName st @ dirtyMarker (changes st)"

section \<open>External collaborators\<close>

text \<open>
  A value thrown by JavaScript code, or the reason a promise rejects with: an instance of
  \<^verbatim>\<open>Error\<close> with its \<^verbatim>\<open>message\<close>, or any other value, with its
  \<^verbatim>\<open>message\<close> property when it has one. A promise that settles is a value of
  \<open>thrown + 'a\<close>, \<^term>\<open>Inl\<close> the rejection.
\<close>

datatype thrown = ErrorInstance string | NonError "string option"

text \<open>
  The classes and services the contribution imports and does not define: the class
  \<^verbatim>\<open>URI\<close> (over the type \<open>'u\<close>), \<^verbatim>\<open>DiffUris.encode\<close>, the constant
  \<^verbatim>\<open>GIT_RESOURCE_SCHEME\<close>, \<^verbatim>\<open>LabelProvider.getIcon\<close>,
  \<^verbatim>\<open>GitFileStatus.toAbbreviation\<close> and \<^verbatim>\<open>String.prototype.localeCompare\<close>
  of the host. They are parameters of the model.

  The icon service may settle two lookups of one URI differently. The calls of
  \<^verbatim>\<open>getIcon\<close> are numbered in the order in which they are made, and the
  outcome of a lookup is a function of its number and of the URI.
\<close>

record 'u env =
  new_URI :: "string \<Rightarrow> 'u"
  withScheme :: "'u \<Rightarrow> string \<Rightarrow> 'u"
  withQuery :: "'u \<Rightarrow> string \<Rightarrow> 'u"
  displayName :: "'u \<Rightarrow> string"
  toString :: "'u \<Rightarrow> string"
  DiffUris_encode :: "'u \<Rightarrow> 'u \<Rightarrow> string \<Rightarrow> 'u"
  GIT_RESOURCE_SCHEME :: string
  getIcon :: "nat \<Rightarrow> 'u \<Rightarrow> thrown + string"
  toAbbreviation :: "GitFileStatus \<Rightarrow> bool \<Rightarrow> string"
  localeCompare :: "string \<Rightarrow> string \<Rightarrow> int"

section \<open>Resources, groups and the provider hub\<close>

text \<open>
  The \<^verbatim>\<open>open\<close> closure of a resource captures the change it was built from and
  resolves the URI when it is called; the resource keeps that change.
\<close>

record 'u ScmResource =
  sourceUri :: 'u
  icon :: string
  letter :: string
  color :: string
  open_change :: GitFileChange

text \<open>A group refers to its provider; the reference is the provider's id.\<close>

record 'u ScmResourceGroup =
  label :: string
  hideWhenEmpty :: bool
  group_id :: string
  provider :: string
  resources :: "'u ScmResource list"

record ScmCommand =
  cmd_id :: string
  cmd_text :: string
  cmd_tooltip :: "string option"
  cmd_command :: "string option"

text \<open>
  Modelled from the spec: the class \<^verbatim>\<open>Emitter\<close> is imported and not defined
  here. A notification is delivered to the subscribers when \<^verbatim>\<open>fire\<close> is called,
  before \<^verbatim>\<open>fire\<close> returns, and a subscriber reads the current state of the hub
  again when it is notified. A call of \<^verbatim>\<open>fire\<close> on one of the four emitters of
  \<^verbatim>\<open>ScmProviderImpl\<close> is recorded at the end of the field \<open>fired\<close> as a
  notification: the event with its payload, and what a subscriber reads from the getters
  \<^verbatim>\<open>groups\<close> and \<^verbatim>\<open>statusBarCommands\<close> of the provider when it is
  notified.
\<close>

datatype scm_event =
    DidChange
  | DidChangeResources
  | DidChangeCommitTemplate string
  | DidChangeStatusBarCommands "ScmCommand list"

record 'u notification =
  n_event :: scm_event
  n_groups :: "'u ScmResourceGroup list option"
  n_statusBarCommands :: "ScmCommand list option"

record 'u ScmProviderImpl =
  p_id :: string
  p_contextValue :: string
  p_label :: string
  p_rootUri :: "string option"
  p_groups :: "'u ScmResourceGroup list option"
  p_count :: "nat option"
  fired :: "'u notification list"

record Repository =
  localUri :: string

text \<open>
  The mutable fields of \<^verbatim>\<open>GitViewContribution\<close>, with the static counter
  \<^verbatim>\<open>SCM_GROUP_ID\<close> of the class and the static counter \<^verbatim>\<open>ID\<close> of
  \<^verbatim>\<open>ScmProviderImpl\<close>. The last field is not a field of the class: it is the
  number of calls of \<^verbatim>\<open>getIcon\<close> made so far, which numbers the next lookup.
\<close>

record 'u GitViewContribution =
  SCM_GROUP_ID :: nat
  ScmProviderImpl_ID :: nat
  dirtyRepositories :: "Repository list"
  scmProviders :: "'u ScmProviderImpl list"
  stagedChanges :: "GitFileChange list"
  mergeChanges :: "GitFileChange list"
  iconLookups :: nat

section \<open>JavaScript numbers and strings\<close>

text \<open>
  \<^verbatim>\<open>SCM_GROUP_ID\<close> is a JavaScript number, that is an IEEE 754 double. It starts at
  zero and is only ever incremented, so it is a natural number; the increment is exact
  below \<open>2 ^ 53\<close>, and at \<open>2 ^ 53\<close> the sum rounds back to \<open>2 ^ 53\<close>.
\<close>

definition js_increment :: "nat \<Rightarrow> nat" where
  "js_increment n = (if n < 2 ^ 53 then n + 1 else n)"

text \<open>The decimal representation a template literal gives an integer below \<open>10 ^ 21\<close>.\<close>

definition digit :: "nat \<Rightarrow> char" where
  "digit d = ''0123456789'' ! (d mod 10)"

fun Number_toString :: "nat \<Rightarrow> string" where
  "Number_toString n =
     (if n < 10 then [digit n] else Number_toString (n div 10) @ [digit (n mod 10)])"

declare Number_toString.simps [simp del]

text \<open>
  \<^verbatim>\<open>s.lastIndexOf(c)\<close> is the greatest index of \<open>c\<close> in \<open>s\<close>, or \<open>-1\<close>;
  \<^verbatim>\<open>s.substring(i)\<close> takes a negative start as zero.
\<close>

definition lastIndexOf :: "string \<Rightarrow> char \<Rightarrow> int" where
  "lastIndexOf s c =
     (case find (\<lambda>i. s ! i = c) (rev [0..<length s]) of
        None \<Rightarrow> - 1
      | Some i \<Rightarrow> int i)"

definition substring :: "string \<Rightarrow> int \<Rightarrow> string" where
  "substring s i = drop (nat (max 0 i)) s"

text \<open>
  \<^verbatim>\<open>Array.prototype.sort\<close> with a comparison function. ECMAScript fixes its result
  for a consistent comparison function: the stable sorted permutation. The model is the
  stable insertion sort: an element goes before the first element it does not compare
  greater than.
\<close>

fun sort_insert :: "('a \<Rightarrow> 'a \<Rightarrow> int) \<Rightarrow> 'a \<Rightarrow> 'a list \<Rightarrow> 'a list" where
  "sort_insert cmp x [] = [x]"
| "sort_insert cmp x (y # ys) =
     (if cmp x y \<le> 0 then x # y # ys else y # sort_insert cmp x ys)"

definition Array_sort :: "('a \<Rightarrow> 'a \<Rightarrow> int) \<Rightarrow> 'a list \<Rightarrow> 'a list" where
  "Array_sort cmp xs = foldr (sort_insert cmp) xs []"

text \<open>
  \<^verbatim>\<open>Promise.all(xs.map(f))\<close>: the list of the results when every promise resolves,
  and a rejection when one rejects. Which rejection wins when several reject depends on
  timing; the model takes the first in list order.
\<close>

fun Promise_all_map :: "('a \<Rightarrow> thrown + 'b) \<Rightarrow> 'a list \<Rightarrow> thrown + 'b list" where
  "Promise_all_map f [] = Inr []"
| "Promise_all_map f (x # xs) =
     (case f x of
        Inl e \<Rightarrow> Inl e
      | Inr y \<Rightarrow> (case Promise_all_map f xs of Inl e \<Rightarrow> Inl e | Inr ys \<Rightarrow> Inr (y # ys)))"

section \<open>Building the resource groups\<close>

definition getColor :: "GitFileStatus \<Rightarrow> string" where
  "getColor s =
     (if s = New then ''var(--theia-success-color0)''
      else if s = Deleted then ''var(--theia-warn-color0)''
      else if s = Conflicted then ''var(--theia-error-color0)''
      else ''var(--theia-brand-color0)'')"

text \<open>
  The callback of \<^verbatim>\<open>changes.map\<close> in \<^verbatim>\<open>getGroup\<close>, for the lookup
  number \<open>n\<close>.
\<close>

definition mkResource :: "'u env \<Rightarrow> nat \<Rightarrow> GitFileChange \<Rightarrow> thrown + 'u ScmResource" where
  "mkResource env n change =
     (case getIcon env n (new_URI env (uri change)) of
        Inl e \<Rightarrow> Inl e
      | Inr ic \<Rightarrow>
          Inr \<lparr>sourceUri = new_URI env (uri change),
               icon = ic,
               letter = toAbbreviation env (status change) (staged change),
               color = getColor (status change),
               open_change = change\<rparr>)"

text \<open>The comparison function \<^verbatim>\<open>sort\<close> of \<^verbatim>\<open>getGroup\<close>.\<close>

definition lastSegment :: "string \<Rightarrow> string" where
  "lastSegment s = substring s (lastIndexOf s CHR ''/'')"

definition sortCompare :: "'u env \<Rightarrow> 'u ScmResource \<Rightarrow> 'u ScmResource \<Rightarrow> int" where
  "sortCompare env l r =
     localeCompare env (lastSegment (toString env (sourceUri l)))
       (lastSegment (toString env (sourceUri r)))"

text \<open>
  \<^verbatim>\<open>changes.map\<close> calls the callback for every change in order, and each call
  makes its lookup before it is suspended: the changes with the numbers of their lookups,
  and the promise of \<^verbatim>\<open>Promise.all\<close>.
\<close>

definition numbered :: "nat \<Rightarrow> 'a list \<Rightarrow> (nat \<times> 'a) list" where
  "numbered n xs = zip [n..<n + length xs] xs"

definition buildResources ::
  "'u env \<Rightarrow> nat \<Rightarrow> GitFileChange list \<Rightarrow> thrown + 'u ScmResource list" where
  "buildResources env n cs =
     Promise_all_map (\<lambda>nc. mkResource env (fst nc) (snd nc)) (numbered n cs)"

text \<open>
  \<^verbatim>\<open>getGroup\<close> returns the settled promise and the state. The counter
  \<^verbatim>\<open>SCM_GROUP_ID\<close> is read and incremented only when every icon has resolved.
\<close>

definition getGroup ::
  "'u env \<Rightarrow> string \<Rightarrow> 'u ScmProviderImpl \<Rightarrow> GitFileChange list \<Rightarrow> 'u GitViewContribution
     \<Rightarrow> (thrown + 'u ScmResourceGroup) \<times> 'u GitViewContribution" where
  "getGroup env lbl prov cs st =
     (case buildResources env (iconLookups st) cs of
        Inl e \<Rightarrow> (Inl e, st\<lparr>iconLookups := iconLookups st + length cs\<rparr>)
      | Inr scmResources \<Rightarrow>
          (Inr \<lparr>label = lbl,
                hideWhenEmpty = False,
                group_id = lbl @ ''_'' @ Number_toString (SCM_GROUP_ID st),
                provider = p_id prov,
                resources = Array_sort (sortCompare env) scmResources\<rparr>,
           st\<lparr>iconLookups := iconLookups st + length cs,
              SCM_GROUP_ID := js_increment (SCM_GROUP_ID st)\<rparr>))"

text \<open>
  The loop of \<^verbatim>\<open>getGroups\<close> over \<^verbatim>\<open>status.changes\<close>: one step for a change,
  on the three arrays \<^verbatim>\<open>stagedChanges\<close>, \<^verbatim>\<open>unstagedChanges\<close> and
  \<^verbatim>\<open>mergeChanges\<close>. The test compares the names of the enum members.
\<close>

definition classify_step ::
  "GitFileChange list \<times> GitFileChange list \<times> GitFileChange list \<Rightarrow> GitFileChange
     \<Rightarrow> GitFileChange list \<times> GitFileChange list \<times> GitFileChange list" where
  "classify_step acc change =
     (case acc of (stagedC, unstagedC, mergeC) \<Rightarrow>
        if GitFileStatus_reverse (GitFileStatus_valueOf Conflicted)
             \<noteq> GitFileStatus_reverse (GitFileStatus_valueOf (status change))
        then (if staged change then (stagedC @ [change], unstagedC, mergeC)
              else (stagedC, unstagedC @ [change], mergeC))
        else (if \<not> staged change then (stagedC, unstagedC, mergeC @ [change])
              else (stagedC, unstagedC, mergeC)))"

definition classify ::
  "WorkingDirectoryStatus option
     \<Rightarrow> GitFileChange list \<times> GitFileChange list \<times> GitFileChange list" where
  "classify st =
     (case st of
        None \<Rightarrow> ([], [], [])
      | Some s \<Rightarrow> foldl classify_step ([], [], []) (changes s))"

text \<open>
  One statement \<^verbatim>\<open>if (cs.length > 0) { groups.push(await this.getGroup(l, provider, cs)); }\<close>
\<close>

definition pushGroup ::
  "'u env \<Rightarrow> string \<Rightarrow> 'u ScmProviderImpl \<Rightarrow> GitFileChange list
     \<Rightarrow> 'u ScmResourceGroup list \<Rightarrow> 'u GitViewContribution
     \<Rightarrow> (thrown + 'u ScmResourceGroup list) \<times> 'u GitViewContribution" where
  "pushGroup env lbl prov cs groups st =
     (if length cs > 0 then
        (case getGroup env lbl prov cs st of
           (Inl e, st') \<Rightarrow> (Inl e, st')
         | (Inr g, st') \<Rightarrow> (Inr (groups @ [g]), st'))
      else (Inr groups, st))"

definition getGroups ::
  "'u env \<Rightarrow> WorkingDirectoryStatus option \<Rightarrow> 'u ScmProviderImpl \<Rightarrow> 'u GitViewContribution
     \<Rightarrow> (thrown + 'u ScmResourceGroup list) \<times> 'u GitViewContribution" where
  "getGroups env wdStatus prov st =
     (case classify wdStatus of (stagedC, unstagedC, mergeC) \<Rightarrow>
        (case pushGroup env ''Staged changes'' prov stagedC [] st of
           (Inl e, st1) \<Rightarrow> (Inl e, st1)
         | (Inr groups1, st1) \<Rightarrow>
        (case pushGroup env ''Changes'' prov unstagedC groups1 st1 of
           (Inl e, st2) \<Rightarrow> (Inl e, st2)
         | (Inr groups2, st2) \<Rightarrow>
        (case pushGroup env ''Merged Changes'' prov mergeC groups2 st2 of
           (Inl e, st3) \<Rightarrow> (Inl e, st3)
         | (Inr groups3, st3) \<Rightarrow>
             (Inr groups3, st3\<lparr>stagedChanges := stagedC, mergeChanges := mergeC\<rparr>)))))"


section \<open>Resolving the URI to open\<close>

text \<open>
  \<^verbatim>\<open>xs.find(c => c.uri === change.uri)\<close> used as a condition: the element found is an
  object, hence truthy, and \<^verbatim>\<open>undefined\<close> is falsy.
\<close>

definition findsUri :: "GitFileChange list \<Rightarrow> GitFileChange \<Rightarrow> bool" where
  "findsUri xs change = (find (\<lambda>c. uri c = uri change) xs \<noteq> None)"

definition getUriToOpen :: "'u env \<Rightarrow> 'u GitViewContribution \<Rightarrow> GitFileChange \<Rightarrow> 'u" where
  "getUriToOpen env st change =
     (let changeUri = new_URI env (uri change) in
      if status change \<noteq> New then
        (if staged change then
           DiffUris_encode env
             (withQuery env (withScheme env changeUri (GIT_RESOURCE_SCHEME env)) ''HEAD'')
             (withScheme env changeUri (GIT_RESOURCE_SCHEME env))
             (displayName env changeUri @ '' (Index)'')
         else if findsUri (stagedChanges st) change then
           DiffUris_encode env
             (withScheme env changeUri (GIT_RESOURCE_SCHEME env))
             changeUri
             (displayName env changeUri @ '' (Working tree)'')
         else if findsUri (mergeChanges st) change then changeUri
         else
           DiffUris_encode env
             (withQuery env (withScheme env changeUri (GIT_RESOURCE_SCHEME env)) ''HEAD'')
             changeUri
             (displayName env changeUri @ '' (Working tree)''))
      else if staged change then withScheme env changeUri (GIT_RESOURCE_SCHEME env)
      else if findsUri (stagedChanges st) change then
        DiffUris_encode env
          (withScheme env changeUri (GIT_RESOURCE_SCHEME env))
          changeUri
          (displayName env changeUri @ '' (Working tree)'')
      else changeUri)"

text \<open>
  The decision table of the specification, in its words and its order of priority. The
  working-tree URI is the URI of the change; the repository-content URI is that URI with
  the Git resource scheme; the HEAD URI is the repository-content URI with the query
  \<^verbatim>\<open>HEAD\<close>. The label of a diff is the display name of the URI followed by the tag
  in parentheses.
\<close>

definition repoSchemeUri :: "'u env \<Rightarrow> 'u \<Rightarrow> 'u" where
  "repoSchemeUri env u = withScheme env u (GIT_RESOURCE_SCHEME env)"

definition headUri :: "'u env \<Rightarrow> 'u \<Rightarrow> 'u" where
  "headUri env u = withQuery env (repoSchemeUri env u) ''HEAD''"

definition diffLabelled :: "'u env \<Rightarrow> 'u \<Rightarrow> 'u \<Rightarrow> 'u \<Rightarrow> string \<Rightarrow> 'u" where
  "diffLabelled env u left right tag =
     DiffUris_encode env left right (displayName env u @ '' ('' @ tag @ '')'')"

definition specUriTable :: "'u env \<Rightarrow> bool \<Rightarrow> bool \<Rightarrow> bool \<Rightarrow> bool \<Rightarrow> 'u \<Rightarrow> 'u" where
  "specUriTable env isNew isStaged inStagedSet inMergeSet u =
     (if isNew \<and> \<not> isStaged \<and> \<not> inStagedSet then u
      else if isNew \<and> isStaged then repoSchemeUri env u
      else if isNew \<and> \<not> isStaged \<and> inStagedSet then
        diffLabelled env u (repoSchemeUri env u) u ''Working tree''
      else if \<not> isNew \<and> isStaged then
        diffLabelled env u (headUri env u) (repoSchemeUri env u) ''Index''
      else if \<not> isNew \<and> \<not> isStaged \<and> inStagedSet then
        diffLabelled env u (repoSchemeUri env u) u ''Working tree''
      else if \<not> isNew \<and> \<not> isStaged \<and> inMergeSet then u
      else diffLabelled env u (headUri env u) u ''Working tree'')"

text \<open>
  A sequence of calls of \<^verbatim>\<open>getGroup\<close> in one process, each with its label, provider
  and changes: the groups created, in order of creation, and the final state. A call
  whose promise rejects creates no group.
\<close>

fun getGroup_calls ::
  "'u env \<Rightarrow> (string \<times> 'u ScmProviderImpl \<times> GitFileChange list) list \<Rightarrow> 'u GitViewContribution
     \<Rightarrow> 'u ScmResourceGroup list \<times> 'u GitViewContribution" where
  "getGroup_calls env [] st = ([], st)"
| "getGroup_calls env (call # calls) st =
     (case getGroup env (fst call) (fst (snd call)) (snd (snd call)) st of
        (Inl e, st') \<Rightarrow> getGroup_calls env calls st'
      | (Inr g, st') \<Rightarrow>
          (case getGroup_calls env calls st' of (gs, st'') \<Rightarrow> (g # gs, st'')))"

text \<open>
  What the specification expects of the groups: one group for each bucket that is not
  empty, in the order staged, unstaged, merge, with the fixed label and with the changes
  of the bucket as its resources.
\<close>

definition groupFor :: "'u ScmResourceGroup \<Rightarrow> string \<times> GitFileChange list \<Rightarrow> bool" where
  "groupFor g lc = (label g = fst lc \<and> mset (map open_change (resources g)) = mset (snd lc))"

definition nonEmptyBuckets ::
  "GitFileChange list \<Rightarrow> GitFileChange list \<Rightarrow> GitFileChange list
     \<Rightarrow> (string \<times> GitFileChange list) list" where
  "nonEmptyBuckets stagedC unstagedC mergeC =
     filter (\<lambda>lc. snd lc \<noteq> [])
       [(''Staged changes'', stagedC), (''Changes'', unstagedC), (''Merged Changes'', mergeC)]"

section \<open>The provider hub\<close>

text \<open>
  The accessors and methods of \<^verbatim>\<open>ScmProviderImpl\<close>. The setter of
  \<^verbatim>\<open>groups\<close> assigns the field; the getter of \<^verbatim>\<open>statusBarCommands\<close> returns
  \<^verbatim>\<open>undefined\<close>, and the class has no field for the commands and no setter.
\<close>

definition get_groups :: "'u ScmProviderImpl \<Rightarrow> 'u ScmResourceGroup list option" where
  "get_groups p = p_groups p"

definition set_groups :: "'u ScmResourceGroup list \<Rightarrow> 'u ScmProviderImpl \<Rightarrow> 'u ScmProviderImpl" where
  "set_groups gs p = p\<lparr>p_groups := Some gs\<rparr>"

definition get_statusBarCommands :: "'u ScmProviderImpl \<Rightarrow> ScmCommand list option" where
  "get_statusBarCommands p = None"

text \<open>
  A call of \<^verbatim>\<open>fire\<close> on an emitter of the provider: the listeners are called
  with the provider in its present state.
\<close>

definition notify :: "scm_event \<Rightarrow> 'u ScmProviderImpl \<Rightarrow> 'u ScmProviderImpl" where
  "notify ev p =
     p\<lparr>fired := fired p @
            [\<lparr>n_event = ev, n_groups = get_groups p,
              n_statusBarCommands = get_statusBarCommands p\<rparr>]\<rparr>"

definition fireChangeStatusBarCommands ::
  "ScmCommand list \<Rightarrow> 'u ScmProviderImpl \<Rightarrow> 'u ScmProviderImpl" where
  "fireChangeStatusBarCommands commands p = notify (DidChangeStatusBarCommands commands) p"

definition fireChangeResources :: "'u ScmProviderImpl \<Rightarrow> 'u ScmProviderImpl" where
  "fireChangeResources p = notify DidChangeResources p"

definition fireChange :: "'u ScmProviderImpl \<Rightarrow> 'u ScmProviderImpl" where
  "fireChange p = notify DidChange p"

text \<open>The resources-changed notifications a provider has fired.\<close>

definition resourcesNotifications :: "'u ScmProviderImpl \<Rightarrow> 'u notification list" where
  "resourcesNotifications p = filter (\<lambda>n. n_event n = DidChangeResources) (fired p)"

record GitEvent =
  source :: Repository
  ev_status :: WorkingDirectoryStatus

text \<open>
  The callback given to \<^verbatim>\<open>then\<close> in the Git event handler of
  \<^verbatim>\<open>onStart\<close>: it assigns the groups, then fires the two notifications.
\<close>

definition publishGroups ::
  "WorkingDirectoryStatus \<Rightarrow> 'u ScmResourceGroup list \<Rightarrow> 'u ScmProviderImpl \<Rightarrow> 'u ScmProviderImpl" where
  "publishGroups wdStatus groups p =
     fireChangeResources
       (fireChangeStatusBarCommands
          [\<lparr>cmd_id = ''git.checkout'', cmd_text = checkoutText wdStatus,
            cmd_tooltip = None, cmd_command = Some ''git.checkout''\<rparr>]
          (set_groups groups p))"

text \<open>\<^verbatim>\<open>Array.prototype.find\<close>, returning the index of the element found.\<close>

fun findIndex :: "('a \<Rightarrow> bool) \<Rightarrow> 'a list \<Rightarrow> nat option" where
  "findIndex P [] = None"
| "findIndex P (x # xs) = (if P x then Some 0 else map_option Suc (findIndex P xs))"

section \<open>Tracking the set of repositories\<close>

text \<open>
  The SCM service is not part of this class. Its state is of a type \<open>'svc\<close>, and the three
  members the contribution uses are parameters: the getter \<^verbatim>\<open>repositories\<close>,
  \<^verbatim>\<open>registerScmProvider\<close> and the \<^verbatim>\<open>dispose\<close> of one of its repositories. A
  repository of the service refers to its provider, here by the provider's id, and gives
  the provider's root URI.
\<close>

record ScmRepository =
  sr_provider_id :: string
  sr_rootUri :: "string option"

record ('u, 'svc) ScmService =
  svc_repositories :: "'svc \<Rightarrow> ScmRepository list"
  svc_registerScmProvider :: "'u ScmProviderImpl \<Rightarrow> 'svc \<Rightarrow> 'svc"
  svc_dispose :: "ScmRepository \<Rightarrow> 'svc \<Rightarrow> 'svc"

text \<open>The calls the contribution makes on the service, in order.\<close>

datatype 'u scm_call =
    RegisterScmProvider "'u ScmProviderImpl"
  | DisposeRepository ScmRepository

fun is_register :: "'u scm_call \<Rightarrow> bool" where
  "is_register (RegisterScmProvider p) = True"
| "is_register (DisposeRepository r) = False"

fun is_dispose :: "'u scm_call \<Rightarrow> bool" where
  "is_dispose (RegisterScmProvider p) = False"
| "is_dispose (DisposeRepository r) = True"

text \<open>
  \<^verbatim>\<open>new ScmProviderImpl('Git', uri.substring(uri.lastIndexOf('/') + 1), uri)\<close>: the id
  is taken from the static counter of the class, which is incremented.
\<close>

definition new_ScmProviderImpl ::
  "string \<Rightarrow> string \<Rightarrow> string option \<Rightarrow> nat \<Rightarrow> 'u ScmProviderImpl" where
  "new_ScmProviderImpl contextValue lbl rootUri counter =
     \<lparr>p_id = ''scm'' @ Number_toString counter, p_contextValue = contextValue, p_label = lbl,
      p_rootUri = rootUri, p_groups = None, p_count = None, fired = []\<rparr>"

definition newProviderFor :: "'u GitViewContribution \<Rightarrow> Repository \<Rightarrow> 'u ScmProviderImpl" where
  "newProviderFor st repository =
     new_ScmProviderImpl ''Git''
       (substring (localUri repository) (lastIndexOf (localUri repository) CHR ''/'' + 1))
       (Some (localUri repository))
       (ScmProviderImpl_ID st)"

text \<open>
  \<^verbatim>\<open>registerScmProvider\<close> of the contribution. What it sets on the input of the
  repository the service returns belongs to the state of the service.
\<close>

definition registerScmProvider ::
  "('u, 'svc) ScmService \<Rightarrow> Repository \<Rightarrow> 'u GitViewContribution \<times> 'svc
     \<Rightarrow> 'u GitViewContribution \<times> 'svc" where
  "registerScmProvider service repository s =
     ((fst s)\<lparr>ScmProviderImpl_ID := js_increment (ScmProviderImpl_ID (fst s)),
              scmProviders := scmProviders (fst s) @ [newProviderFor (fst s) repository]\<rparr>,
      svc_registerScmProvider service (newProviderFor (fst s) repository) (snd s))"

text \<open>\<^verbatim>\<open>xs.splice(i, 1)\<close>\<close>

definition splice1 :: "nat \<Rightarrow> 'a list \<Rightarrow> 'a list" where
  "splice1 i xs = take i xs @ drop (Suc i) xs"

text \<open>
  \<^verbatim>\<open>checkNewOrRemovedRepositories\<close>, given the value of
  \<^verbatim>\<open>repositoryProvider.allRepositories\<close>, in its three parts: the search for an added
  repository and its registration, the search for a removed repository and its disposal,
  and the assignment of \<^verbatim>\<open>dirtyRepositories\<close>. Each part returns the state of the
  contribution and of the service, and the calls it made on the service.
\<close>

definition findAdded :: "Repository list \<Rightarrow> Repository list \<Rightarrow> Repository option" where
  "findAdded allRepositories dirty =
     find (\<lambda>repo. list_all (\<lambda>dirtyRepo. localUri dirtyRepo \<noteq> localUri repo) dirty)
       allRepositories"

definition findRemoved :: "Repository list \<Rightarrow> Repository list \<Rightarrow> Repository option" where
  "findRemoved allRepositories dirty =
     find (\<lambda>dirtyRepo. list_all (\<lambda>repo. localUri repo \<noteq> localUri dirtyRepo) allRepositories)
       dirty"

definition handleAdded ::
  "('u, 'svc) ScmService \<Rightarrow> Repository list \<Rightarrow> 'u GitViewContribution \<times> 'svc
     \<Rightarrow> ('u GitViewContribution \<times> 'svc) \<times> 'u scm_call list" where
  "handleAdded service allRepositories s =
     (case findAdded allRepositories (dirtyRepositories (fst s)) of
        None \<Rightarrow> (s, [])
      | Some added \<Rightarrow>
          (registerScmProvider service added s,
           [RegisterScmProvider (newProviderFor (fst s) added)]))"

definition removeProvider :: "ScmRepository \<Rightarrow> 'u GitViewContribution \<Rightarrow> 'u GitViewContribution" where
  "removeProvider removedScmRepo st =
     (case findIndex (\<lambda>p. p_id p = sr_provider_id removedScmRepo) (scmProviders st) of
        None \<Rightarrow> st
      | Some i \<Rightarrow> st\<lparr>scmProviders := splice1 i (scmProviders st)\<rparr>)"

definition handleRemoved ::
  "('u, 'svc) ScmService \<Rightarrow> Repository list \<Rightarrow> 'u GitViewContribution \<times> 'svc
     \<Rightarrow> ('u GitViewContribution \<times> 'svc) \<times> 'u scm_call list" where
  "handleRemoved service allRepositories s =
     (case findRemoved allRepositories (dirtyRepositories (fst s)) of
        None \<Rightarrow> (s, [])
      | Some removed \<Rightarrow>
          (case find (\<lambda>scmRepo. sr_rootUri scmRepo = Some (localUri removed))
                  (svc_repositories service (snd s)) of
             None \<Rightarrow> (s, [])
           | Some removedScmRepo \<Rightarrow>
               ((removeProvider removedScmRepo (fst s),
                 svc_dispose service removedScmRepo (snd s)),
                [DisposeRepository removedScmRepo])))"

definition checkNewOrRemovedRepositories ::
  "('u, 'svc) ScmService \<Rightarrow> Repository list \<Rightarrow> 'u GitViewContribution \<times> 'svc
     \<Rightarrow> ('u GitViewContribution \<times> 'svc) \<times> 'u scm_call list" where
  "checkNewOrRemovedRepositories service allRepositories s =
     (let r1 = handleAdded service allRepositories s;
          r2 = handleRemoved service allRepositories (fst r1)
      in (((fst (fst r2))\<lparr>dirtyRepositories := allRepositories\<rparr>, snd (fst r2)),
          snd r1 @ snd r2))"

section \<open>The Git event handler\<close>

text \<open>
  \<^verbatim>\<open>getStatusBarEntry\<close>, given \<^verbatim>\<open>repositoryTracker.selectedRepositoryStatus\<close>
  and \<^verbatim>\<open>syncService.isSyncing()\<close>.
\<close>

record StatusBarEntry =
  entry_text :: string
  entry_tooltip :: "string option"
  entry_command :: "string option"

definition aheadBehindText :: "AheadBehind option \<Rightarrow> string" where
  "aheadBehindText ab =
     (case ab of
        None \<Rightarrow> []
      | Some v \<Rightarrow>
          '' '' @ Number_toString (behind v) @ '' $(arrow-down) '' @
          Number_toString (ahead v) @ '' $(arrow-up)'')"

definition getStatusBarEntry :: "WorkingDirectoryStatus option \<Rightarrow> bool \<Rightarrow> StatusBarEntry option" where
  "getStatusBarEntry selectedRepositoryStatus isSyncing =
     (case selectedRepositoryStatus of
        None \<Rightarrow> None
      | Some st \<Rightarrow>
          if \<not> truthy (branch st) then None
          else if isSyncing then
            Some \<lparr>entry_text = ''$(refresh~spin)'',
                  entry_tooltip = Some ''Synchronizing Changes...'',
                  entry_command = None\<rparr>
          else if truthy (upstreamBranch st) then
            Some \<lparr>entry_text = ''$(refresh)'' @ aheadBehindText (aheadBehind st),
                  entry_tooltip = Some ''Synchronize Changes'',
                  entry_command = Some ''git.sync''\<rparr>
          else
            Some \<lparr>entry_text = ''$(cloud-upload)'',
                  entry_tooltip = Some ''Publish Changes'',
                  entry_command = Some ''git.publish''\<rparr>)"

text \<open>
  \<^verbatim>\<open>updateSyncStatusBarEntry\<close> returns the state and the ids it removes from the
  status bar.
\<close>

definition updateSyncStatusBarEntry ::
  "WorkingDirectoryStatus option \<Rightarrow> bool \<Rightarrow> string option \<Rightarrow> 'u GitViewContribution
     \<Rightarrow> 'u GitViewContribution \<times> string list" where
  "updateSyncStatusBarEntry selectedRepositoryStatus isSyncing repositoryUri st =
     (case getStatusBarEntry selectedRepositoryStatus isSyncing of
        None \<Rightarrow> (st, [''git-sync-status''])
      | Some entry \<Rightarrow>
          if truthy repositoryUri then
            (case findIndex (\<lambda>provider. p_rootUri provider = repositoryUri) (scmProviders st) of
               None \<Rightarrow> (st, [])
             | Some i \<Rightarrow>
                 (st\<lparr>scmProviders :=
                       (scmProviders st)
                         [i := fireChangeStatusBarCommands
                                 [\<lparr>cmd_id = ''vcs-sync-status'', cmd_text = entry_text entry,
                                   cmd_tooltip = entry_tooltip entry,
                                   cmd_command = entry_command entry\<rparr>]
                                 (scmProviders st ! i)]\<rparr>,
                  []))
          else (st, [''git-sync-status'']))"

text \<open>
  The promise of \<^verbatim>\<open>getGroups\<close> for the provider found, the object at index
  \<open>i\<close> of \<^verbatim>\<open>scmProviders\<close>, and its callback, which runs only when the promise
  resolves and mutates that object. The handler attaches no rejection handler, so a
  rejection is returned as unhandled.
\<close>

definition publishAt ::
  "'u env \<Rightarrow> GitEvent \<Rightarrow> nat \<Rightarrow> 'u GitViewContribution
     \<Rightarrow> thrown option \<times> 'u GitViewContribution" where
  "publishAt env event i st =
     (case getGroups env (Some (ev_status event)) (scmProviders st ! i) st of
        (Inl e, st') \<Rightarrow> (Some e, st')
      | (Inr groups, st') \<Rightarrow>
          (None,
           st'\<lparr>scmProviders :=
                 (scmProviders st')[i := publishGroups (ev_status event) groups
                                           (scmProviders st' ! i)]\<rparr>))"

text \<open>
  The handler of \<^verbatim>\<open>repositoryTracker.onGitEvent\<close> in \<^verbatim>\<open>onStart\<close>, from the
  event to the settling of the promise it starts. The handler calls
  \<^verbatim>\<open>checkNewOrRemovedRepositories\<close>, looks the provider of the event's repository
  up, starts \<^verbatim>\<open>getGroups\<close> and calls \<^verbatim>\<open>updateSyncStatusBarEntry\<close>; the
  promise settles and its callback runs after the handler has returned. No other event is
  handled in between.
\<close>

record ('u, 'svc) GitEventOutcome =
  unhandledRejection :: "thrown option"
  contribution :: "'u GitViewContribution"
  scmService :: 'svc
  scmCalls :: "'u scm_call list"
  statusBarRemoved :: "string list"

definition onGitEvent ::
  "'u env \<Rightarrow> ('u, 'svc) ScmService \<Rightarrow> Repository list \<Rightarrow> WorkingDirectoryStatus option \<Rightarrow> bool
     \<Rightarrow> GitEvent \<Rightarrow> 'u GitViewContribution \<times> 'svc \<Rightarrow> ('u, 'svc) GitEventOutcome" where
  "onGitEvent env service allRepositories selectedRepositoryStatus isSyncing event s =
     (let checked = checkNewOrRemovedRepositories service allRepositories s;
          scmProvider = findIndex (\<lambda>provider. p_rootUri provider = Some (localUri (source event)))
                          (scmProviders (fst (fst checked)));
          synced = updateSyncStatusBarEntry selectedRepositoryStatus isSyncing
                     (Some (localUri (source event))) (fst (fst checked));
          settled = (case scmProvider of
                       None \<Rightarrow> (None, fst synced)
                     | Some i \<Rightarrow> publishAt env event i (fst synced))
      in \<lparr>unhandledRejection = fst settled,
          contribution = snd settled,
          scmService = snd (fst checked),
          scmCalls = snd checked,
          statusBarRemoved = snd synced\<rparr>)"

section \<open>The amend-commit command\<close>

text \<open>\<^verbatim>\<open>!(e instanceof Error) || e.message !== 'User abort.'\<close>\<close>

definition rethrown :: "thrown \<Rightarrow> bool" where
  "rethrown e =
     (case e of
        ErrorInstance message \<Rightarrow> message \<noteq> ''User abort.''
      | NonError message \<Rightarrow> True)"

text \<open>
  The handler of \<^verbatim>\<open>GIT_COMMANDS.COMMIT_AMEND\<close>. Its parameters are whether
  \<^verbatim>\<open>tryGetWidget\<close> gives a widget, the selected repository, the settled promise of
  \<^verbatim>\<open>commitMessageForAmend\<close>, and what a call of \<^verbatim>\<open>widget.doCommit\<close> throws
  before it returns, if anything. It returns the rejection of its own promise, if any, and
  the calls of \<^verbatim>\<open>widget.doCommit\<close> it made.
\<close>

definition commitAmend ::
  "bool \<Rightarrow> Repository option \<Rightarrow> thrown + string
     \<Rightarrow> (Repository \<Rightarrow> string \<Rightarrow> string \<Rightarrow> thrown option)
     \<Rightarrow> thrown option \<times> (Repository \<times> string \<times> string) list" where
  "commitAmend widget selectedRepository commitMessageForAmend doCommit =
     (case selectedRepository of
        None \<Rightarrow> (None, [])
      | Some repository \<Rightarrow>
          if widget then
            (case commitMessageForAmend of
               Inl e \<Rightarrow> (if rethrown e then Some e else None, [])
             | Inr message \<Rightarrow>
                 (case doCommit repository ''amend'' message of
                    None \<Rightarrow> (None, [(repository, ''amend'', message)])
                  | Some e \<Rightarrow>
                      (if rethrown e then Some e else None, [(repository, ''amend'', message)])))
          else (None, []))"

section \<open>Example inputs\<close>

text \<open>
  A collaborator environment for concrete evaluation: URIs are the terms built by the
  operations of the class, every icon resolves, and strings compare by code unit.
\<close>

datatype uri_term =
    Parsed string
  | WithScheme uri_term string
  | WithQuery uri_term string
  | Diff uri_term uri_term string

fun raw_uri :: "uri_term \<Rightarrow> string" where
  "raw_uri (Parsed s) = s"
| "raw_uri (WithScheme u s) = raw_uri u"
| "raw_uri (WithQuery u q) = raw_uri u"
| "raw_uri (Diff l r n) = raw_uri r"

definition codeUnitCompare :: "string \<Rightarrow> string \<Rightarrow> int" where
  "codeUnitCompare a b = (if a < b then - 1 else if a = b then 0 else 1)"

definition example_env :: "uri_term env" where
  "example_env =
     \<lparr>new_URI = Parsed,
      withScheme = WithScheme,
      withQuery = WithQuery,
      displayName = (\<lambda>u. drop 1 (lastSegment (raw_uri u))),
      toString = raw_uri,
      DiffUris_encode = Diff,
      GIT_RESOURCE_SCHEME = ''gitrev'',
      getIcon = (\<lambda>n u. Inr ''fa fa-file''),
      toAbbreviation = (\<lambda>s b. take 1 (the (GitFileStatus_reverse (GitFileStatus_valueOf s)))),
      localeCompare = codeUnitCompare\<rparr>"

definition example_changes :: "GitFileChange list" where
  "example_changes =
     [\<lparr>uri = ''file:///r/a.txt'', status = Modified, staged = True\<rparr>,
      \<lparr>uri = ''file:///r/b.txt'', status = New, staged = False\<rparr>,
      \<lparr>uri = ''file:///r/c.txt'', status = Conflicted, staged = False\<rparr>,
      \<lparr>uri = ''file:///r/d.txt'', status = Conflicted, staged = True\<rparr>]"

definition example_status :: WorkingDirectoryStatus where
  "example_status =
     \<lparr>branch = Some ''master'', currentHead = None, upstreamBranch = None,
      aheadBehind = None, changes = example_changes\<rparr>"

definition example_provider :: "uri_term ScmProviderImpl" where
  "example_provider =
     \<lparr>p_id = ''scm0'', p_contextValue = ''Git'', p_label = ''r'',
      p_rootUri = Some ''file:///r'', p_groups = None, p_count = None, fired = []\<rparr>"

definition example_view :: "uri_term GitViewContribution" where
  "example_view =
     \<lparr>SCM_GROUP_ID = 0, ScmProviderImpl_ID = 1,
      dirtyRepositories = [\<lparr>localUri = ''file:///r''\<rparr>], scmProviders = [example_provider],
      stagedChanges = [\<lparr>uri = ''file:///r/a.txt'', status = Modified, staged = True\<rparr>],
      mergeChanges = [\<lparr>uri = ''file:///r/c.txt'', status = Conflicted, staged = False\<rparr>],
      iconLookups = 0\<rparr>"

definition example_event :: GitEvent where
  "example_event = \<lparr>source = \<lparr>localUri = ''file:///r''\<rparr>, ev_status = example_status\<rparr>"

definition failing_env :: "uri_term env" where
  "failing_env =
     example_env\<lparr>getIcon := (\<lambda>n u. if n = 1 then Inl (ErrorInstance ''no icon'')
                                    else Inr ''fa fa-file'')\<rparr>"

definition sort_bucket :: "GitFileChange list" where
  "sort_bucket =
     [\<lparr>uri = ''file:///r/z/a.txt'', status = Modified, staged = False\<rparr>,
      \<lparr>uri = ''file:///r/b.txt'', status = New, staged = False\<rparr>,
      \<lparr>uri = ''file:///r/y/a.txt'', status = Deleted, staged = False\<rparr>]"

definition example_command :: ScmCommand where
  "example_command =
     \<lparr>cmd_id = ''git.checkout'', cmd_text = ''$(code-fork) master*'',
      cmd_tooltip = None, cmd_command = Some ''git.checkout''\<rparr>"

definition example_service :: "(uri_term, ScmRepository list) ScmService" where
  "example_service =
     \<lparr>svc_repositories = (\<lambda>svc. svc),
      svc_registerScmProvider =
        (\<lambda>p svc. svc @ [\<lparr>sr_provider_id = p_id p, sr_rootUri = p_rootUri p\<rparr>]),
      svc_dispose = (\<lambda>r svc. remove1 r svc)\<rparr>"

definition example_tracked :: "uri_term GitViewContribution \<times> ScmRepository list" where
  "example_tracked =
     (example_view, [\<lparr>sr_provider_id = ''scm0'', sr_rootUri = Some ''file:///r''\<rparr>])"

section \<open>Properties\<close>

subsection \<open>The dirty marker\<close>

text \<open>
  C10. For every status event the dirty marker appended to the branch name in the text of
  the status-bar checkout command is empty when the change list is empty, \<^verbatim>\<open>!\<close>
  when some change is conflicted, \<^verbatim>\<open>+\<close> when no change is conflicted and every
  change is staged, and \<^verbatim>\<open>*\<close> otherwise.
\<close>

theorem dirtyMarker_table:
  "checkoutText st = ''$(code-fork) '' @ branchName st @ dirtyMarker (changes st) \<and>
   dirtyMarker cs =
     (if cs = [] then ''''
      else if (\<exists>c \<in> set cs. status c = Conflicted) then ''!''
      else if (\<forall>c \<in> set cs. staged c) then ''+''
      else ''*'')"
  by (auto simp: checkoutText_def dirtyMarker_def hasConflicts_def allStaged_def
        list_ex_iff Let_def)

theorem dirtyMarker_table_witness:
  "dirtyMarker [\<lparr>uri = ''file:///r/a.txt'', status = Modified, staged = True\<rparr>,
                \<lparr>uri = ''file:///r/b.txt'', status = New, staged = False\<rparr>] = ''*'' \<and>
   dirtyMarker [\<lparr>uri = ''file:///r/a.txt'', status = Modified, staged = True\<rparr>] = ''+'' \<and>
   dirtyMarker [\<lparr>uri = ''file:///r/a.txt'', status = Conflicted, staged = True\<rparr>] = ''!'' \<and>
   dirtyMarker [] = ''''"
  using dirtyMarker_table [of st "[\<lparr>uri = ''file:///r/a.txt'', status = Modified, staged = True\<rparr>,
                \<lparr>uri = ''file:///r/b.txt'', status = New, staged = False\<rparr>]"]
    dirtyMarker_table [of st "[\<lparr>uri = ''file:///r/a.txt'', status = Modified, staged = True\<rparr>]"]
    dirtyMarker_table [of st "[\<lparr>uri = ''file:///r/a.txt'', status = Conflicted, staged = True\<rparr>]"]
    dirtyMarker_table [of st "[]"]
  by simp

lemma conflicted_name_test:
  "(GitFileStatus_reverse (GitFileStatus_valueOf Conflicted)
      \<noteq> GitFileStatus_reverse (GitFileStatus_valueOf s)) = (s \<noteq> Conflicted)"
  by (cases s) (simp_all add: GitFileStatus_reverse_def)

lemma foldl_classify_step:
  "foldl classify_step (a, b, c) cs =
     (a @ filter (\<lambda>c. status c \<noteq> Conflicted \<and> staged c) cs,
      b @ filter (\<lambda>c. status c \<noteq> Conflicted \<and> \<not> staged c) cs,
      c @ filter (\<lambda>c. status c = Conflicted \<and> \<not> staged c) cs)"
  by (induction cs arbitrary: a b c)
    (simp_all add: classify_step_def conflicted_name_test del: GitFileStatus_valueOf.simps)

lemma classify_Some:
  "classify (Some s) =
     (filter (\<lambda>c. status c \<noteq> Conflicted \<and> staged c) (changes s),
      filter (\<lambda>c. status c \<noteq> Conflicted \<and> \<not> staged c) (changes s),
      filter (\<lambda>c. status c = Conflicted \<and> \<not> staged c) (changes s))"
  by (simp add: classify_def foldl_classify_step)

lemma classify_None: "classify None = ([], [], [])"
  by (simp add: classify_def)

lemma length_three_filters:
  "length (filter (\<lambda>c. status c \<noteq> Conflicted \<and> staged c) cs) +
   length (filter (\<lambda>c. status c \<noteq> Conflicted \<and> \<not> staged c) cs) +
   length (filter (\<lambda>c. status c = Conflicted \<and> \<not> staged c) cs) +
   length (filter (\<lambda>c. status c = Conflicted \<and> staged c) cs) = length cs"
  by (induction cs) auto

lemma getGroups_no_changes:
  "classify w = ([], [], []) \<Longrightarrow>
   getGroups env w prov st = (Inr [], st\<lparr>stagedChanges := [], mergeChanges := []\<rparr>)"
  by (simp add: getGroups_def pushGroup_def)

subsection \<open>The change classifier\<close>

text \<open>
  C2. For every change list, the empty one included, the loop of \<^verbatim>\<open>getGroups\<close>
  partitions it in one pass that keeps the input order: a change that is not conflicted goes
  to the staged bucket when its flag is set and to the unstaged bucket otherwise, a
  conflicted unstaged change goes to the merge bucket, a conflicted staged change goes to no
  bucket, and no change is in two buckets. An empty or undefined status gives three empty
  buckets and no group.
\<close>

theorem classify_partition:
  "classify (Some s) =
     (filter (\<lambda>c. status c \<noteq> Conflicted \<and> staged c) (changes s),
      filter (\<lambda>c. status c \<noteq> Conflicted \<and> \<not> staged c) (changes s),
      filter (\<lambda>c. status c = Conflicted \<and> \<not> staged c) (changes s)) \<and>
   (\<forall>stagedC unstagedC mergeC. classify (Some s) = (stagedC, unstagedC, mergeC) \<longrightarrow>
      (\<forall>c \<in> set (changes s).
         (status c \<noteq> Conflicted \<and> staged c \<longrightarrow>
            c \<in> set stagedC \<and> c \<notin> set unstagedC \<and> c \<notin> set mergeC) \<and>
         (status c \<noteq> Conflicted \<and> \<not> staged c \<longrightarrow>
            c \<notin> set stagedC \<and> c \<in> set unstagedC \<and> c \<notin> set mergeC) \<and>
         (status c = Conflicted \<and> \<not> staged c \<longrightarrow>
            c \<notin> set stagedC \<and> c \<notin> set unstagedC \<and> c \<in> set mergeC) \<and>
         (status c = Conflicted \<and> staged c \<longrightarrow>
            c \<notin> set stagedC \<and> c \<notin> set unstagedC \<and> c \<notin> set mergeC)) \<and>
      set stagedC \<union> set unstagedC \<union> set mergeC \<subseteq> set (changes s) \<and>
      length stagedC + length unstagedC + length mergeC +
        length (filter (\<lambda>c. status c = Conflicted \<and> staged c) (changes s))
        = length (changes s)) \<and>
   classify None = ([], [], []) \<and>
   (changes s = [] \<longrightarrow> classify (Some s) = ([], [], [])) \<and>
   getGroups env None prov st = (Inr [], st\<lparr>stagedChanges := [], mergeChanges := []\<rparr>) \<and>
   (changes s = [] \<longrightarrow>
      getGroups env (Some s) prov st = (Inr [], st\<lparr>stagedChanges := [], mergeChanges := []\<rparr>))"
proof -
  have part: "classify (Some s) =
     (filter (\<lambda>c. status c \<noteq> Conflicted \<and> staged c) (changes s),
      filter (\<lambda>c. status c \<noteq> Conflicted \<and> \<not> staged c) (changes s),
      filter (\<lambda>c. status c = Conflicted \<and> \<not> staged c) (changes s))"
    by (rule classify_Some)
  have empty: "changes s = [] \<longrightarrow> classify (Some s) = ([], [], [])"
    by (simp add: part)
  have g1: "getGroups env None prov st = (Inr [], st\<lparr>stagedChanges := [], mergeChanges := []\<rparr>)"
    by (rule getGroups_no_changes) (rule classify_None)
  have g2: "changes s = [] \<longrightarrow>
      getGroups env (Some s) prov st = (Inr [], st\<lparr>stagedChanges := [], mergeChanges := []\<rparr>)"
    using empty by (auto intro: getGroups_no_changes)
  have mem: "\<forall>stagedC unstagedC mergeC. classify (Some s) = (stagedC, unstagedC, mergeC) \<longrightarrow>
      (\<forall>c \<in> set (changes s).
         (status c \<noteq> Conflicted \<and> staged c \<longrightarrow>
            c \<in> set stagedC \<and> c \<notin> set unstagedC \<and> c \<notin> set mergeC) \<and>
         (status c \<noteq> Conflicted \<and> \<not> staged c \<longrightarrow>
            c \<notin> set stagedC \<and> c \<in> set unstagedC \<and> c \<notin> set mergeC) \<and>
         (status c = Conflicted \<and> \<not> staged c \<longrightarrow>
            c \<notin> set stagedC \<and> c \<notin> set unstagedC \<and> c \<in> set mergeC) \<and>
         (status c = Conflicted \<and> staged c \<longrightarrow>
            c \<notin> set stagedC \<and> c \<notin> set unstagedC \<and> c \<notin> set mergeC)) \<and>
      set stagedC \<union> set unstagedC \<union> set mergeC \<subseteq> set (changes s) \<and>
      length stagedC + length unstagedC + length mergeC +
        length (filter (\<lambda>c. status c = Conflicted \<and> staged c) (changes s))
        = length (changes s)"
    unfolding part using length_three_filters [of "changes s"] by auto
  show ?thesis by (intro conjI part empty g1 g2 mem classify_None)
qed


theorem classify_partition_witness:
  "classify (Some example_status) =
     ([\<lparr>uri = ''file:///r/a.txt'', status = Modified, staged = True\<rparr>],
      [\<lparr>uri = ''file:///r/b.txt'', status = New, staged = False\<rparr>],
      [\<lparr>uri = ''file:///r/c.txt'', status = Conflicted, staged = False\<rparr>])"
  using classify_partition [of example_status, THEN conjunct1]
  by (simp add: example_status_def example_changes_def)

subsection \<open>The URI to open\<close>

lemma findsUri_iff: "findsUri xs change = (uri change \<in> uri ` set xs)"
  by (induction xs) (auto simp: findsUri_def)

text \<open>
  C1. For every change, \<^verbatim>\<open>getUriToOpen\<close> returns the URI that the decision table
  of seven cases prescribes for the status, the staged flag, and the membership of the
  URI of the change in the cached staged set and in the cached merge set, the cases taken
  in the order of the specification.
\<close>

theorem getUriToOpen_table:
  "getUriToOpen env st change =
     specUriTable env (status change = New) (staged change)
       (uri change \<in> uri ` set (stagedChanges st))
       (uri change \<in> uri ` set (mergeChanges st))
       (new_URI env (uri change))"
  by (simp add: getUriToOpen_def specUriTable_def findsUri_iff Let_def
        diffLabelled_def headUri_def repoSchemeUri_def)

theorem getUriToOpen_table_witness:
  "getUriToOpen example_env example_view
     \<lparr>uri = ''file:///r/a.txt'', status = Modified, staged = False\<rparr> =
   Diff (WithScheme (Parsed ''file:///r/a.txt'') ''gitrev'') (Parsed ''file:///r/a.txt'')
     ''a.txt (Working tree)''"
  using getUriToOpen_table [of example_env example_view
      "\<lparr>uri = ''file:///r/a.txt'', status = Modified, staged = False\<rparr>"]
  by (simp add: example_env_def example_view_def specUriTable_def diffLabelled_def
        repoSchemeUri_def headUri_def lastSegment_def lastIndexOf_def substring_def)

subsection \<open>Groups from buckets\<close>

lemma mset_sort_insert: "mset (sort_insert cmp x ys) = add_mset x (mset ys)"
  by (induction ys) simp_all

lemma mset_Array_sort: "mset (Array_sort cmp xs) = mset xs"
  by (induction xs) (simp_all add: Array_sort_def mset_sort_insert)

lemma Promise_all_map_Inr:
  "Promise_all_map f xs = Inr ys \<Longrightarrow> list_all2 (\<lambda>x y. f x = Inr y) xs ys"
  by (induction xs arbitrary: ys) (auto split: sum.splits)

lemma Promise_all_map_resolves:
  "\<forall>x \<in> set xs. \<exists>y. f x = Inr y \<Longrightarrow> \<exists>ys. Promise_all_map f xs = Inr ys"
  by (induction xs) (auto split: sum.splits)

lemma Promise_all_map_rejects:
  "x \<in> set xs \<Longrightarrow> f x = Inl e \<Longrightarrow> \<exists>e'. Promise_all_map f xs = Inl e'"
  by (induction xs) (auto split: sum.splits)

lemma mkResource_Inr:
  "mkResource env n c = Inr r \<Longrightarrow>
     open_change r = c \<and> sourceUri r = new_URI env (uri c) \<and>
     getIcon env n (new_URI env (uri c)) = Inr (icon r)"
  by (auto simp: mkResource_def split: sum.splits)

lemma mkResource_resolves:
  "getIcon env n (new_URI env (uri c)) = Inr ic \<Longrightarrow> \<exists>r. mkResource env n c = Inr r"
  by (simp add: mkResource_def)

lemma mkResource_rejects:
  "getIcon env n (new_URI env (uri c)) = Inl e \<Longrightarrow> mkResource env n c = Inl e"
  by (simp add: mkResource_def)

lemma length_numbered: "length (numbered n xs) = length xs"
  by (simp add: numbered_def)

lemma map_snd_numbered: "map snd (numbered n xs) = xs"
  by (simp add: numbered_def)

lemma nth_numbered: "k < length xs \<Longrightarrow> numbered n xs ! k = (n + k, xs ! k)"
  by (simp add: numbered_def)

lemma snd_numbered_mem: "nc \<in> set (numbered n xs) \<Longrightarrow> snd nc \<in> set xs"
  using map_snd_numbered [of n xs] by (metis image_eqI set_map)

lemma list_all2_map_eq:
  "list_all2 R xs ys \<Longrightarrow> (\<And>x y. R x y \<Longrightarrow> g y = h x) \<Longrightarrow> map g ys = map h xs"
  by (induction rule: list_all2_induct) simp_all

lemma resources_open_change:
  assumes "buildResources env n cs = Inr rs"
  shows "map open_change rs = cs"
proof -
  from assms have
    "list_all2 (\<lambda>nc r. mkResource env (fst nc) (snd nc) = Inr r) (numbered n cs) rs"
    unfolding buildResources_def by (rule Promise_all_map_Inr)
  then have "map open_change rs = map snd (numbered n cs)"
    by (rule list_all2_map_eq) (simp add: mkResource_Inr)
  then show ?thesis by (simp only: map_snd_numbered)
qed

lemma buildResources_resolves:
  assumes "\<forall>c \<in> set cs. \<forall>k. \<exists>ic. getIcon env k (new_URI env (uri c)) = Inr ic"
  shows "\<exists>rs. buildResources env n cs = Inr rs"
proof -
  have "\<forall>nc \<in> set (numbered n cs). \<exists>r. mkResource env (fst nc) (snd nc) = Inr r"
  proof
    fix nc assume "nc \<in> set (numbered n cs)"
    then have "snd nc \<in> set cs" by (rule snd_numbered_mem)
    with assms obtain ic where "getIcon env (fst nc) (new_URI env (uri (snd nc))) = Inr ic"
      by blast
    then show "\<exists>r. mkResource env (fst nc) (snd nc) = Inr r" by (rule mkResource_resolves)
  qed
  then show ?thesis unfolding buildResources_def by (rule Promise_all_map_resolves)
qed

lemma buildResources_rejects:
  assumes "k < length cs" and "getIcon env (n + k) (new_URI env (uri (cs ! k))) = Inl e"
  shows "\<exists>e'. buildResources env n cs = Inl e'"
proof -
  from assms(1) have "numbered n cs ! k \<in> set (numbered n cs)"
    by (simp add: length_numbered)
  with assms(1) have m: "(n + k, cs ! k) \<in> set (numbered n cs)"
    by (simp add: nth_numbered)
  have "mkResource env (fst (n + k, cs ! k)) (snd (n + k, cs ! k)) = Inl e"
    using assms(2) by (simp add: mkResource_rejects)
  with m show ?thesis
    unfolding buildResources_def
    by (rule Promise_all_map_rejects
          [of "(n + k, cs ! k)" _ "\<lambda>nc. mkResource env (fst nc) (snd nc)" e])
qed

lemma getGroup_cases:
  "(\<exists>e. getGroup env lbl prov cs st = (Inl e, st\<lparr>iconLookups := iconLookups st + length cs\<rparr>)) \<or>
   (\<exists>g. getGroup env lbl prov cs st =
           (Inr g, st\<lparr>iconLookups := iconLookups st + length cs,
                      SCM_GROUP_ID := js_increment (SCM_GROUP_ID st)\<rparr>)
      \<and> label g = lbl
      \<and> group_id g = lbl @ ''_'' @ Number_toString (SCM_GROUP_ID st)
      \<and> mset (map open_change (resources g)) = mset cs)"
proof (cases "buildResources env (iconLookups st) cs")
  case (Inl e)
  then show ?thesis by (simp add: getGroup_def)
next
  case (Inr rs)
  have "mset (map open_change (Array_sort (sortCompare env) rs)) = mset (map open_change rs)"
    by (simp add: mset_Array_sort)
  with Inr show ?thesis by (simp add: getGroup_def resources_open_change)
qed

lemma getGroup_resolves:
  assumes "\<forall>c \<in> set cs. \<forall>k. \<exists>ic. getIcon env k (new_URI env (uri c)) = Inr ic"
  shows "\<exists>g st'. getGroup env lbl prov cs st = (Inr g, st')"
proof -
  from assms have "\<exists>rs. buildResources env (iconLookups st) cs = Inr rs"
    by (rule buildResources_resolves)
  then obtain rs where "buildResources env (iconLookups st) cs = Inr rs" ..
  then show ?thesis by (simp add: getGroup_def)
qed

lemma getGroup_rejects:
  assumes "k < length cs"
    and "getIcon env (iconLookups st + k) (new_URI env (uri (cs ! k))) = Inl e"
  shows "\<exists>e' st'. getGroup env lbl prov cs st = (Inl e', st')"
proof -
  from assms have "\<exists>e'. buildResources env (iconLookups st) cs = Inl e'"
    by (rule buildResources_rejects)
  then obtain e' where "buildResources env (iconLookups st) cs = Inl e'" ..
  then show ?thesis by (simp add: getGroup_def)
qed

lemma pushGroup_cases:
  "(\<exists>e st'. pushGroup env lbl prov cs groups st = (Inl e, st')
      \<and> stagedChanges st' = stagedChanges st \<and> mergeChanges st' = mergeChanges st
      \<and> scmProviders st' = scmProviders st) \<or>
   (\<exists>gs' st'. pushGroup env lbl prov cs groups st = (Inr (groups @ gs'), st')
      \<and> list_all2 groupFor gs' (filter (\<lambda>lc. snd lc \<noteq> []) [(lbl, cs)])
      \<and> stagedChanges st' = stagedChanges st \<and> mergeChanges st' = mergeChanges st
      \<and> scmProviders st' = scmProviders st
      \<and> iconLookups st' = iconLookups st + length cs)"
proof (cases "cs = []")
  case True
  then show ?thesis by (simp add: pushGroup_def)
next
  case False
  from getGroup_cases [of env lbl prov cs st] show ?thesis
  proof
    assume "\<exists>e. getGroup env lbl prov cs st
                  = (Inl e, st\<lparr>iconLookups := iconLookups st + length cs\<rparr>)"
    then obtain e where
      "getGroup env lbl prov cs st = (Inl e, st\<lparr>iconLookups := iconLookups st + length cs\<rparr>)" ..
    with False have "pushGroup env lbl prov cs groups st
        = (Inl e, st\<lparr>iconLookups := iconLookups st + length cs\<rparr>)"
      by (simp add: pushGroup_def)
    then show ?thesis by simp
  next
    assume "\<exists>g. getGroup env lbl prov cs st =
           (Inr g, st\<lparr>iconLookups := iconLookups st + length cs,
                      SCM_GROUP_ID := js_increment (SCM_GROUP_ID st)\<rparr>)
      \<and> label g = lbl
      \<and> group_id g = lbl @ ''_'' @ Number_toString (SCM_GROUP_ID st)
      \<and> mset (map open_change (resources g)) = mset cs"
    then obtain g where g: "getGroup env lbl prov cs st =
           (Inr g, st\<lparr>iconLookups := iconLookups st + length cs,
                      SCM_GROUP_ID := js_increment (SCM_GROUP_ID st)\<rparr>)"
      "label g = lbl" "mset (map open_change (resources g)) = mset cs"
      by blast
    have "pushGroup env lbl prov cs groups st =
        (Inr (groups @ [g]), st\<lparr>iconLookups := iconLookups st + length cs,
                                SCM_GROUP_ID := js_increment (SCM_GROUP_ID st)\<rparr>)"
      using False g(1) by (simp add: pushGroup_def)
    moreover have "list_all2 groupFor [g] (filter (\<lambda>lc. snd lc \<noteq> []) [(lbl, cs)])"
      using False g(2,3) by (simp add: groupFor_def)
    ultimately show ?thesis by simp
  qed
qed

lemma pushGroup_resolves:
  assumes "\<forall>c \<in> set cs. \<forall>k. \<exists>ic. getIcon env k (new_URI env (uri c)) = Inr ic"
  shows "\<exists>gs st'. pushGroup env lbl prov cs groups st = (Inr gs, st')"
proof (cases "cs = []")
  case True
  then show ?thesis by (simp add: pushGroup_def)
next
  case False
  from getGroup_resolves [OF assms, of lbl prov st] obtain g st' where
    "getGroup env lbl prov cs st = (Inr g, st')" by blast
  with False show ?thesis by (simp add: pushGroup_def)
qed

lemma pushGroup_rejects:
  assumes "k < length cs"
    and "getIcon env (iconLookups st + k) (new_URI env (uri (cs ! k))) = Inl e"
  shows "\<exists>e' st'. pushGroup env lbl prov cs groups st = (Inl e', st')"
proof -
  from assms(1) have ne: "length cs > 0" by (cases cs) simp_all
  from getGroup_rejects [OF assms, of lbl prov] obtain e' st' where
    "getGroup env lbl prov cs st = (Inl e', st')" by blast
  with ne show ?thesis by (simp add: pushGroup_def)
qed

lemma pushGroup_Inl:
  "pushGroup env lbl prov cs groups st = (Inl e, st') \<Longrightarrow>
   stagedChanges st' = stagedChanges st \<and> mergeChanges st' = mergeChanges st
      \<and> scmProviders st' = scmProviders st"
  using pushGroup_cases [of env lbl prov cs groups st] by auto

lemma pushGroup_Inr:
  "pushGroup env lbl prov cs groups st = (Inr gs, st') \<Longrightarrow>
   \<exists>gs'. gs = groups @ gs'
      \<and> list_all2 groupFor gs' (filter (\<lambda>lc. snd lc \<noteq> []) [(lbl, cs)])
      \<and> stagedChanges st' = stagedChanges st \<and> mergeChanges st' = mergeChanges st
      \<and> scmProviders st' = scmProviders st
      \<and> iconLookups st' = iconLookups st + length cs"
  using pushGroup_cases [of env lbl prov cs groups st] by auto

lemma nonEmptyBuckets_append:
  "nonEmptyBuckets stagedC unstagedC mergeC =
     filter (\<lambda>lc. snd lc \<noteq> []) [(''Staged changes'', stagedC)]
     @ filter (\<lambda>lc. snd lc \<noteq> []) [(''Changes'', unstagedC)]
     @ filter (\<lambda>lc. snd lc \<noteq> []) [(''Merged Changes'', mergeC)]"
  by (simp add: nonEmptyBuckets_def)

lemma getGroups_cases:
  assumes "classify w = (stagedC, unstagedC, mergeC)"
  shows "(\<exists>e st'. getGroups env w prov st = (Inl e, st')
            \<and> stagedChanges st' = stagedChanges st \<and> mergeChanges st' = mergeChanges st
            \<and> scmProviders st' = scmProviders st) \<or>
         (\<exists>groups st'. getGroups env w prov st = (Inr groups, st')
            \<and> list_all2 groupFor groups (nonEmptyBuckets stagedC unstagedC mergeC)
            \<and> stagedChanges st' = stagedC \<and> mergeChanges st' = mergeC
            \<and> scmProviders st' = scmProviders st)"
proof -
  obtain r1 st1 where p1: "pushGroup env ''Staged changes'' prov stagedC [] st = (r1, st1)"
    by (cases "pushGroup env ''Staged changes'' prov stagedC [] st")
  show ?thesis
  proof (cases r1)
    case (Inl e1)
    with p1 have "stagedChanges st1 = stagedChanges st \<and> mergeChanges st1 = mergeChanges st
        \<and> scmProviders st1 = scmProviders st"
      by (simp add: pushGroup_Inl)
    moreover have "getGroups env w prov st = (Inl e1, st1)"
      using assms p1 Inl by (simp add: getGroups_def)
    ultimately show ?thesis by simp
  next
    case (Inr gs1)
    note r1 = this
    from pushGroup_Inr [OF p1 [unfolded r1]] obtain gs1' where
      a1: "list_all2 groupFor gs1' (filter (\<lambda>lc. snd lc \<noteq> []) [(''Staged changes'', stagedC)])" and
      e1: "gs1 = [] @ gs1'" and
      s1: "stagedChanges st1 = stagedChanges st" "mergeChanges st1 = mergeChanges st"
          "scmProviders st1 = scmProviders st"
      by blast
    obtain r2 st2 where p2: "pushGroup env ''Changes'' prov unstagedC gs1 st1 = (r2, st2)"
      by (cases "pushGroup env ''Changes'' prov unstagedC gs1 st1")
    show ?thesis
    proof (cases r2)
      case (Inl e2)
      with p2 have "stagedChanges st2 = stagedChanges st1 \<and> mergeChanges st2 = mergeChanges st1
          \<and> scmProviders st2 = scmProviders st1"
        by (simp add: pushGroup_Inl)
      moreover have "getGroups env w prov st = (Inl e2, st2)"
        using assms p1 r1 p2 Inl by (simp add: getGroups_def)
      ultimately show ?thesis using s1 by simp
    next
      case (Inr gs2)
      note r2 = this
      from pushGroup_Inr [OF p2 [unfolded r2]] obtain gs2' where
        a2: "list_all2 groupFor gs2' (filter (\<lambda>lc. snd lc \<noteq> []) [(''Changes'', unstagedC)])" and
        e2: "gs2 = gs1 @ gs2'" and
        s2: "stagedChanges st2 = stagedChanges st1" "mergeChanges st2 = mergeChanges st1"
            "scmProviders st2 = scmProviders st1"
        by blast
      obtain r3 st3 where
        p3: "pushGroup env ''Merged Changes'' prov mergeC gs2 st2 = (r3, st3)"
        by (cases "pushGroup env ''Merged Changes'' prov mergeC gs2 st2")
      show ?thesis
      proof (cases r3)
        case (Inl e3)
        with p3 have "stagedChanges st3 = stagedChanges st2 \<and> mergeChanges st3 = mergeChanges st2
            \<and> scmProviders st3 = scmProviders st2"
          by (simp add: pushGroup_Inl)
        moreover have "getGroups env w prov st = (Inl e3, st3)"
          using assms p1 r1 p2 r2 p3 Inl by (simp add: getGroups_def)
        ultimately show ?thesis using s1 s2 by simp
      next
        case (Inr gs3)
        from pushGroup_Inr [OF p3 [unfolded Inr]] obtain gs3' where
          a3: "list_all2 groupFor gs3'
                 (filter (\<lambda>lc. snd lc \<noteq> []) [(''Merged Changes'', mergeC)])" and
          e3: "gs3 = gs2 @ gs3'" and
          s3: "scmProviders st3 = scmProviders st2"
          by blast
        have "list_all2 groupFor (gs1' @ gs2' @ gs3')
                (filter (\<lambda>lc. snd lc \<noteq> []) [(''Staged changes'', stagedC)]
                 @ filter (\<lambda>lc. snd lc \<noteq> []) [(''Changes'', unstagedC)]
                 @ filter (\<lambda>lc. snd lc \<noteq> []) [(''Merged Changes'', mergeC)])"
          by (intro list_all2_appendI a1 a2 a3)
        then have all: "list_all2 groupFor gs3 (nonEmptyBuckets stagedC unstagedC mergeC)"
          by (simp only: nonEmptyBuckets_append e1 e2 e3 append_Nil append_assoc)
        have "getGroups env w prov st =
                (Inr gs3, st3\<lparr>stagedChanges := stagedC, mergeChanges := mergeC\<rparr>)"
          using assms p1 r1 p2 r2 p3 Inr by (simp add: getGroups_def)
        with all s1 s2 s3 show ?thesis by simp
      qed
    qed
  qed
qed

lemma getGroups_resolves:
  assumes "classify w = (stagedC, unstagedC, mergeC)"
    and "\<forall>c \<in> set (stagedC @ unstagedC @ mergeC).
           \<forall>k. \<exists>ic. getIcon env k (new_URI env (uri c)) = Inr ic"
  shows "\<exists>groups st'. getGroups env w prov st = (Inr groups, st')"
proof -
  from assms(2) have
    a: "\<forall>c \<in> set stagedC. \<forall>k. \<exists>ic. getIcon env k (new_URI env (uri c)) = Inr ic" and
    b: "\<forall>c \<in> set unstagedC. \<forall>k. \<exists>ic. getIcon env k (new_URI env (uri c)) = Inr ic" and
    c: "\<forall>c \<in> set mergeC. \<forall>k. \<exists>ic. getIcon env k (new_URI env (uri c)) = Inr ic"
    by simp_all
  from pushGroup_resolves [OF a, of "''Staged changes''" prov "[]" st] obtain gs1 st1 where
    p1: "pushGroup env ''Staged changes'' prov stagedC [] st = (Inr gs1, st1)" by blast
  from pushGroup_resolves [OF b, of "''Changes''" prov gs1 st1] obtain gs2 st2 where
    p2: "pushGroup env ''Changes'' prov unstagedC gs1 st1 = (Inr gs2, st2)" by blast
  from pushGroup_resolves [OF c, of "''Merged Changes''" prov gs2 st2] obtain gs3 st3 where
    p3: "pushGroup env ''Merged Changes'' prov mergeC gs2 st2 = (Inr gs3, st3)" by blast
  show ?thesis using assms(1) p1 p2 p3 by (simp add: getGroups_def)
qed

lemma getGroups_rejects:
  assumes "classify w = (stagedC, unstagedC, mergeC)"
    and "k < length (stagedC @ unstagedC @ mergeC)"
    and "getIcon env (iconLookups st + k)
           (new_URI env (uri ((stagedC @ unstagedC @ mergeC) ! k))) = Inl e"
  shows "\<exists>e' st'. getGroups env w prov st = (Inl e', st')"
proof -
  obtain r1 st1 where p1: "pushGroup env ''Staged changes'' prov stagedC [] st = (r1, st1)"
    by (cases "pushGroup env ''Staged changes'' prov stagedC [] st")
  show ?thesis
  proof (cases r1)
    case (Inl e1)
    with assms(1) p1 show ?thesis by (simp add: getGroups_def)
  next
    case (Inr gs1)
    note r1 = this
    from pushGroup_Inr [OF p1 [unfolded r1]]
    have n1: "iconLookups st1 = iconLookups st + length stagedC" by blast
    obtain r2 st2 where p2: "pushGroup env ''Changes'' prov unstagedC gs1 st1 = (r2, st2)"
      by (cases "pushGroup env ''Changes'' prov unstagedC gs1 st1")
    show ?thesis
    proof (cases r2)
      case (Inl e2)
      with assms(1) p1 r1 p2 show ?thesis by (simp add: getGroups_def)
    next
      case (Inr gs2)
      note r2 = this
      from pushGroup_Inr [OF p2 [unfolded r2]]
      have n2: "iconLookups st2 = iconLookups st1 + length unstagedC" by blast
      obtain r3 st3 where
        p3: "pushGroup env ''Merged Changes'' prov mergeC gs2 st2 = (r3, st3)"
        by (cases "pushGroup env ''Merged Changes'' prov mergeC gs2 st2")
      show ?thesis
      proof (cases r3)
        case (Inl e3)
        with assms(1) p1 r1 p2 r2 p3 show ?thesis by (simp add: getGroups_def)
      next
        case (Inr gs3)
        consider "k < length stagedC"
          | "length stagedC \<le> k" "k - length stagedC < length unstagedC"
          | "length stagedC + length unstagedC \<le> k"
            "k - length stagedC - length unstagedC < length mergeC"
          using assms(2) by fastforce
        then have False
        proof cases
          case 1
          with assms(3) have
            "getIcon env (iconLookups st + k) (new_URI env (uri (stagedC ! k))) = Inl e"
            by (simp add: nth_append)
          from pushGroup_rejects [OF 1 this, of "''Staged changes''" prov "[]"] p1 r1
          show False by simp
        next
          case 2
          from 2(1) have a: "\<not> k < length stagedC" by arith
          from a 2(2) have "(stagedC @ unstagedC @ mergeC) ! k = unstagedC ! (k - length stagedC)"
            by (simp add: nth_append)
          moreover from 2(1) n1 have "iconLookups st1 + (k - length stagedC) = iconLookups st + k"
            by arith
          ultimately have
            "getIcon env (iconLookups st1 + (k - length stagedC))
               (new_URI env (uri (unstagedC ! (k - length stagedC)))) = Inl e"
            using assms(3) by simp
          from pushGroup_rejects [OF 2(2) this, of "''Changes''" prov gs1] p2 r2
          show False by simp
        next
          case 3
          from 3(1) have a: "\<not> k < length stagedC"
            and b: "\<not> k - length stagedC < length unstagedC"
            by arith+
          from a b have "(stagedC @ unstagedC @ mergeC) ! k
              = mergeC ! (k - length stagedC - length unstagedC)"
            by (simp add: nth_append)
          moreover from 3(1) n1 n2 have
            "iconLookups st2 + (k - length stagedC - length unstagedC) = iconLookups st + k"
            by arith
          ultimately have
            "getIcon env (iconLookups st2 + (k - length stagedC - length unstagedC))
               (new_URI env (uri (mergeC ! (k - length stagedC - length unstagedC)))) = Inl e"
            using assms(3) by simp
          from pushGroup_rejects [OF 3(2) this, of "''Merged Changes''" prov gs2] p3 Inr
          show False by simp
        qed
        then show ?thesis ..
      qed
    qed
  qed
qed

lemma groupFor_labels:
  "list_all2 groupFor groups lcs \<Longrightarrow> map label groups = map fst lcs"
  by (induction rule: list_all2_induct) (simp_all add: groupFor_def)

lemma nonEmptyBuckets_labels:
  "map fst (nonEmptyBuckets stagedC unstagedC mergeC) =
     (if stagedC \<noteq> [] then [''Staged changes''] else [])
     @ (if unstagedC \<noteq> [] then [''Changes''] else [])
     @ (if mergeC \<noteq> [] then [''Merged Changes''] else [])"
  by (simp add: nonEmptyBuckets_def)

text \<open>
  C3. For every classification result, \<^verbatim>\<open>getGroups\<close> produces one group for
  each bucket that is not empty and none for an empty bucket, in the order staged,
  unstaged, merge, labelled \<^verbatim>\<open>Staged changes\<close>, \<^verbatim>\<open>Changes\<close> and
  \<^verbatim>\<open>Merged Changes\<close>. The groups are those of the resolved promise; the promise
  resolves when every lookup of the icon of a change of the buckets resolves.
\<close>

theorem getGroups_one_group_per_bucket:
  assumes "classify w = (stagedC, unstagedC, mergeC)"
  shows "(\<forall>groups st'. getGroups env w prov st = (Inr groups, st') \<longrightarrow>
            list_all2 groupFor groups (nonEmptyBuckets stagedC unstagedC mergeC) \<and>
            map label groups =
              (if stagedC \<noteq> [] then [''Staged changes''] else [])
              @ (if unstagedC \<noteq> [] then [''Changes''] else [])
              @ (if mergeC \<noteq> [] then [''Merged Changes''] else [])) \<and>
         ((\<forall>c \<in> set (stagedC @ unstagedC @ mergeC).
              \<forall>k. \<exists>ic. getIcon env k (new_URI env (uri c)) = Inr ic) \<longrightarrow>
            (\<exists>groups st'. getGroups env w prov st = (Inr groups, st')))"
proof (intro conjI allI impI)
  fix groups st'
  assume r: "getGroups env w prov st = (Inr groups, st')"
  with getGroups_cases [OF assms, of env prov st]
  show a: "list_all2 groupFor groups (nonEmptyBuckets stagedC unstagedC mergeC)"
    by auto
  show "map label groups =
          (if stagedC \<noteq> [] then [''Staged changes''] else [])
          @ (if unstagedC \<noteq> [] then [''Changes''] else [])
          @ (if mergeC \<noteq> [] then [''Merged Changes''] else [])"
    using groupFor_labels [OF a] by (simp only: nonEmptyBuckets_labels)
next
  assume "\<forall>c \<in> set (stagedC @ unstagedC @ mergeC).
            \<forall>k. \<exists>ic. getIcon env k (new_URI env (uri c)) = Inr ic"
  with assms show "\<exists>groups st'. getGroups env w prov st = (Inr groups, st')"
    by (rule getGroups_resolves)
qed

lemma classify_example:
  "classify (Some example_status) =
     ([\<lparr>uri = ''file:///r/a.txt'', status = Modified, staged = True\<rparr>],
      [\<lparr>uri = ''file:///r/b.txt'', status = New, staged = False\<rparr>],
      [\<lparr>uri = ''file:///r/c.txt'', status = Conflicted, staged = False\<rparr>])"
  by (simp add: classify_Some example_status_def example_changes_def)

theorem getGroups_one_group_per_bucket_witness:
  "\<exists>groups st'. getGroups example_env (Some example_status) example_provider example_view
        = (Inr groups, st') \<and>
      map label groups = [''Staged changes'', ''Changes'', ''Merged Changes'']"
proof -
  note t = getGroups_one_group_per_bucket [OF classify_example,
      of example_env example_provider example_view]
  have "\<forall>c \<in> set ([\<lparr>uri = ''file:///r/a.txt'', status = Modified, staged = True\<rparr>]
            @ [\<lparr>uri = ''file:///r/b.txt'', status = New, staged = False\<rparr>]
            @ [\<lparr>uri = ''file:///r/c.txt'', status = Conflicted, staged = False\<rparr>]).
          \<forall>k. \<exists>ic. getIcon example_env k (new_URI example_env (uri c)) = Inr ic"
    by (simp add: example_env_def)
  with t obtain groups st' where
    r: "getGroups example_env (Some example_status) example_provider example_view
          = (Inr groups, st')"
    by blast
  with t have l: "map label groups = [''Staged changes'', ''Changes'', ''Merged Changes'']"
    by simp
  show ?thesis
    by (rule exI [of _ groups], rule exI [of _ st']) (simp only: r l)
qed

subsection \<open>Group ids\<close>

lemma digit_inj: "a < 10 \<Longrightarrow> b < 10 \<Longrightarrow> digit a = digit b \<Longrightarrow> a = b"
proof -
  assume a: "a < 10" and b: "b < 10" and e: "digit a = digit b"
  have d: "distinct ''0123456789''" by simp
  have l: "length ''0123456789'' = 10" by simp
  from e a b have "''0123456789'' ! a = ''0123456789'' ! b" by (simp add: digit_def)
  with d l a b show ?thesis by (simp only: nth_eq_iff_index_eq)
qed

lemma digit_not_underscore: "digit d \<noteq> CHR ''_''"
proof -
  have "d mod 10 < length ''0123456789''" by simp
  then have "''0123456789'' ! (d mod 10) \<in> set ''0123456789''" by (rule nth_mem)
  moreover have "CHR ''_'' \<notin> set ''0123456789''" by simp
  ultimately show ?thesis unfolding digit_def by metis
qed

lemma Number_toString_not_Nil: "Number_toString n \<noteq> []"
  by (subst Number_toString.simps) simp

lemma Number_toString_no_underscore: "CHR ''_'' \<notin> set (Number_toString n)"
proof (induction n rule: Number_toString.induct)
  case (1 n)
  show ?case
  proof (cases "n < 10")
    case True
    then show ?thesis
      using digit_not_underscore [of n] by (subst Number_toString.simps) auto
  next
    case False
    with 1 show ?thesis
      using digit_not_underscore [of "n mod 10"] by (subst Number_toString.simps) auto
  qed
qed

lemma Number_toString_inj: "Number_toString n = Number_toString m \<Longrightarrow> n = m"
proof (induction n arbitrary: m rule: Number_toString.induct)
  case (1 n)
  show ?case
  proof (cases "n < 10")
    case True
    note n = this
    show ?thesis
    proof (cases "m < 10")
      case True
      with n 1(2) have "digit n = digit m"
        by (simp add: Number_toString.simps [of n] Number_toString.simps [of m])
      with n True show ?thesis by (rule digit_inj)
    next
      case False
      with n 1(2) have "[digit n] = Number_toString (m div 10) @ [digit (m mod 10)]"
        by (simp add: Number_toString.simps [of n] Number_toString.simps [of m])
      then have "Number_toString (m div 10) = []" by simp
      then show ?thesis by (simp add: Number_toString_not_Nil)
    qed
  next
    case False
    note n = this
    show ?thesis
    proof (cases "m < 10")
      case True
      with n 1(2) have "Number_toString (n div 10) @ [digit (n mod 10)] = [digit m]"
        by (simp add: Number_toString.simps [of n] Number_toString.simps [of m])
      then have "Number_toString (n div 10) = []" by simp
      then show ?thesis by (simp add: Number_toString_not_Nil)
    next
      case False
      with n 1(2) have
        "Number_toString (n div 10) @ [digit (n mod 10)]
           = Number_toString (m div 10) @ [digit (m mod 10)]"
        by (simp add: Number_toString.simps [of n] Number_toString.simps [of m])
      then have a: "Number_toString (n div 10) = Number_toString (m div 10)"
        and b: "digit (n mod 10) = digit (m mod 10)"
        by simp_all
      from 1(1) [OF n a] have "n div 10 = m div 10" .
      moreover from b have "n mod 10 = m mod 10" by (intro digit_inj) simp_all
      ultimately show ?thesis by (metis div_mult_mod_eq)
    qed
  qed
qed

lemma takeWhile_until:
  "c \<notin> set zs \<Longrightarrow> takeWhile (\<lambda>x. x \<noteq> c) (zs @ c # ws) = zs"
  by (induction zs) auto

lemma suffix_after_last_separator:
  assumes "xs @ c # ys = xs' @ c # ys'" and "c \<notin> set ys" and "c \<notin> set ys'"
  shows "ys = ys'"
proof -
  have "rev ys @ c # rev xs = rev ys' @ c # rev xs'"
    using arg_cong [OF assms(1), of rev] by simp
  then have "takeWhile (\<lambda>x. x \<noteq> c) (rev ys @ c # rev xs)
           = takeWhile (\<lambda>x. x \<noteq> c) (rev ys' @ c # rev xs')"
    by simp
  moreover have "takeWhile (\<lambda>x. x \<noteq> c) (rev ys @ c # rev xs) = rev ys"
    using assms(2) by (intro takeWhile_until) simp
  moreover have "takeWhile (\<lambda>x. x \<noteq> c) (rev ys' @ c # rev xs') = rev ys'"
    using assms(3) by (intro takeWhile_until) simp
  ultimately show ?thesis by simp
qed

lemma group_id_inj:
  "lbl @ ''_'' @ Number_toString k = lbl' @ ''_'' @ Number_toString k' \<Longrightarrow> k = k'"
proof -
  assume "lbl @ ''_'' @ Number_toString k = lbl' @ ''_'' @ Number_toString k'"
  then have "lbl @ CHR ''_'' # Number_toString k = lbl' @ CHR ''_'' # Number_toString k'"
    by simp
  then have "Number_toString k = Number_toString k'"
    by (rule suffix_after_last_separator) (rule Number_toString_no_underscore)+
  then show ?thesis by (rule Number_toString_inj)
qed

lemma js_increment_ge: "n \<le> js_increment n"
  by (simp add: js_increment_def)

lemma js_increment_le: "js_increment n \<le> n + 1"
  by (simp add: js_increment_def)

lemma getGroup_counter:
  "getGroup env lbl prov cs st = (r, st') \<Longrightarrow>
     (case r of
        Inl e \<Rightarrow> SCM_GROUP_ID st' = SCM_GROUP_ID st
      | Inr g \<Rightarrow> group_id g = lbl @ ''_'' @ Number_toString (SCM_GROUP_ID st)
                 \<and> SCM_GROUP_ID st' = js_increment (SCM_GROUP_ID st))"
  by (auto simp: getGroup_def split: sum.splits)

lemma getGroup_calls_counters:
  "g \<in> set (fst (getGroup_calls env calls st)) \<Longrightarrow>
   \<exists>lbl k. group_id g = lbl @ ''_'' @ Number_toString k \<and> SCM_GROUP_ID st \<le> k"
proof (induction calls arbitrary: st)
  case Nil
  then show ?case by simp
next
  case (Cons call calls)
  obtain r st' where c: "getGroup env (fst call) (fst (snd call)) (snd (snd call)) st = (r, st')"
    by (cases "getGroup env (fst call) (fst (snd call)) (snd (snd call)) st")
  note k = getGroup_counter [OF c]
  show ?case
  proof (cases r)
    case (Inl e)
    with c Cons.prems have "g \<in> set (fst (getGroup_calls env calls st'))" by simp
    from Cons.IH [OF this] k Inl show ?thesis by simp
  next
    case (Inr g0)
    with c Cons.prems have "g = g0 \<or> g \<in> set (fst (getGroup_calls env calls st'))"
      by (auto split: prod.splits)
    then show ?thesis
    proof
      assume "g = g0"
      with k Inr show ?thesis by auto
    next
      assume "g \<in> set (fst (getGroup_calls env calls st'))"
      from Cons.IH [OF this] obtain l n where
        "group_id g = l @ ''_'' @ Number_toString n" "SCM_GROUP_ID st' \<le> n" by blast
      moreover from k Inr have "SCM_GROUP_ID st \<le> SCM_GROUP_ID st'"
        by (simp add: js_increment_ge)
      ultimately show ?thesis by (meson le_trans)
    qed
  qed
qed

text \<open>
  C5, as amended. Across a sequence of calls of \<^verbatim>\<open>getGroup\<close> in one process, the
  ids \<^verbatim>\<open><label>_<counter>\<close> of the groups created are pairwise different, whatever
  the labels and the contents, as long as the counter does not pass \<open>2 ^ 53\<close>: the
  counter at the start plus the number of calls is at most \<open>2 ^ 53 + 1\<close>.
\<close>

theorem group_ids_distinct:
  "SCM_GROUP_ID st + length calls \<le> 2 ^ 53 + 1 \<Longrightarrow>
   distinct (map group_id (fst (getGroup_calls env calls st)))"
proof (induction calls arbitrary: st)
  case Nil
  then show ?case by simp
next
  case (Cons call calls)
  obtain r st' where c: "getGroup env (fst call) (fst (snd call)) (snd (snd call)) st = (r, st')"
    by (cases "getGroup env (fst call) (fst (snd call)) (snd (snd call)) st")
  note k = getGroup_counter [OF c]
  show ?case
  proof (cases r)
    case (Inl e)
    with k have "SCM_GROUP_ID st' = SCM_GROUP_ID st" by simp
    with Cons.prems have "SCM_GROUP_ID st' + length calls \<le> 2 ^ 53 + 1" by simp
    then have "distinct (map group_id (fst (getGroup_calls env calls st')))"
      by (rule Cons.IH)
    with c Inl show ?thesis by simp
  next
    case (Inr g0)
    with k have id0: "group_id g0 = fst call @ ''_'' @ Number_toString (SCM_GROUP_ID st)"
      and st': "SCM_GROUP_ID st' = js_increment (SCM_GROUP_ID st)" by simp_all
    from st' Cons.prems have "SCM_GROUP_ID st' + length calls \<le> 2 ^ 53 + 1"
      using js_increment_le [of "SCM_GROUP_ID st"] by simp
    then have d: "distinct (map group_id (fst (getGroup_calls env calls st')))"
      by (rule Cons.IH)
    have fresh: "group_id g0 \<notin> group_id ` set (fst (getGroup_calls env calls st'))"
    proof
      assume "group_id g0 \<in> group_id ` set (fst (getGroup_calls env calls st'))"
      then obtain g where g: "g \<in> set (fst (getGroup_calls env calls st'))"
        and e: "group_id g0 = group_id g" by auto
      from g have "calls \<noteq> []" by auto
      with Cons.prems have lt: "SCM_GROUP_ID st < 2 ^ 53" by (cases calls) simp_all
      from getGroup_calls_counters [OF g] obtain l n where
        n: "group_id g = l @ ''_'' @ Number_toString n" "SCM_GROUP_ID st' \<le> n" by blast
      from e id0 n(1) have "SCM_GROUP_ID st = n" by (simp only: group_id_inj)
      with n(2) st' lt show False by (simp add: js_increment_def)
    qed
    from c Inr have "fst (getGroup_calls env (call # calls) st)
        = g0 # fst (getGroup_calls env calls st')"
      by (simp split: prod.splits)
    with d fresh show ?thesis by simp
  qed
qed


theorem group_ids_distinct_witness:
  "SCM_GROUP_ID example_view +
     length [(''Changes'', example_provider, [\<lparr>uri = ''file:///r/b.txt'', status = New, staged = False\<rparr>]),
             (''Changes'', example_provider, [\<lparr>uri = ''file:///r/b.txt'', status = New, staged = False\<rparr>])]
     \<le> 2 ^ 53 + 1 \<and>
   distinct (map group_id (fst (getGroup_calls example_env
     [(''Changes'', example_provider, [\<lparr>uri = ''file:///r/b.txt'', status = New, staged = False\<rparr>]),
      (''Changes'', example_provider, [\<lparr>uri = ''file:///r/b.txt'', status = New, staged = False\<rparr>])]
     example_view)))"
proof -
  have h: "SCM_GROUP_ID example_view +
     length [(''Changes'', example_provider, [\<lparr>uri = ''file:///r/b.txt'', status = New, staged = False\<rparr>]),
             (''Changes'', example_provider, [\<lparr>uri = ''file:///r/b.txt'', status = New, staged = False\<rparr>])]
     \<le> 2 ^ 53 + 1"
    by (simp add: example_view_def)
  from h group_ids_distinct [OF h, of example_env] show ?thesis by (rule conjI)
qed

lemma getGroup_calls_replicate:
  assumes "\<forall>c \<in> set cs. \<forall>k. \<exists>ic. getIcon env k (new_URI env (uri c)) = Inr ic"
  shows "SCM_GROUP_ID st \<le> 2 ^ 53 \<Longrightarrow>
         map group_id (fst (getGroup_calls env (replicate n (lbl, prov, cs)) st)) =
         map (\<lambda>k. lbl @ ''_'' @ Number_toString (min (SCM_GROUP_ID st + k) (2 ^ 53))) [0..<n]"
proof (induction n arbitrary: st)
  case 0
  then show ?case by simp
next
  case (Suc n)
  let ?st' = "st\<lparr>iconLookups := iconLookups st + length cs,
                   SCM_GROUP_ID := js_increment (SCM_GROUP_ID st)\<rparr>"
  from getGroup_resolves [OF assms, of lbl prov st] getGroup_cases [of env lbl prov cs st]
  obtain g where g: "getGroup env lbl prov cs st = (Inr g, ?st')"
    and id0: "group_id g = lbl @ ''_'' @ Number_toString (SCM_GROUP_ID st)"
    by auto
  have le: "SCM_GROUP_ID ?st' \<le> 2 ^ 53"
    using Suc.prems by (simp add: js_increment_def)
  have shift: "min (SCM_GROUP_ID ?st' + k) (2 ^ 53) = min (SCM_GROUP_ID st + Suc k) (2 ^ 53)" for k
    using Suc.prems by (simp add: js_increment_def)
  have "map group_id (fst (getGroup_calls env (replicate (Suc n) (lbl, prov, cs)) st))
      = group_id g # map group_id (fst (getGroup_calls env (replicate n (lbl, prov, cs)) ?st'))"
    using g by (simp split: prod.splits)
  also have "\<dots> = (lbl @ ''_'' @ Number_toString (min (SCM_GROUP_ID st + 0) (2 ^ 53)))
      # map (\<lambda>k. lbl @ ''_'' @ Number_toString (min (SCM_GROUP_ID st + Suc k) (2 ^ 53))) [0..<n]"
    using Suc.prems by (simp only: Suc.IH [OF le] id0 shift) simp
  also have "\<dots> = map (\<lambda>k. lbl @ ''_'' @ Number_toString (min (SCM_GROUP_ID st + k) (2 ^ 53)))
      (0 # map Suc [0..<n])"
    by (simp add: comp_def)
  also have "0 # map Suc [0..<n] = [0..<Suc n]"
    by (simp only: map_Suc_upt upt_conv_Cons [of 0 "Suc n"] zero_less_Suc if_True)
  finally show ?case .
qed

text \<open>
  C5, as stated, fails: the counter is a JavaScript number and stays at \<open>2 ^ 53\<close> once
  it is there, so from the initial counter \<open>0\<close> the calls number \<open>2 ^ 53 + 1\<close> and
  \<open>2 ^ 53 + 2\<close> with one label create groups with one id.
\<close>

theorem group_id_reuse_counterexample:
  "\<not> distinct (map group_id (fst (getGroup_calls example_env
       (replicate (2 ^ 53 + 2)
          (''Changes'', example_provider,
           [\<lparr>uri = ''file:///r/b.txt'', status = New, staged = False\<rparr>]))
       example_view)))"
proof
  let ?f = "\<lambda>k. ''Changes'' @ ''_'' @ Number_toString (min (SCM_GROUP_ID example_view + k) (2 ^ 53))"
  have r: "\<forall>c \<in> set [\<lparr>uri = ''file:///r/b.txt'', status = New, staged = False\<rparr>].
             \<forall>k. \<exists>ic. getIcon example_env k (new_URI example_env (uri c)) = Inr ic"
    by (simp add: example_env_def)
  have z: "SCM_GROUP_ID example_view \<le> 2 ^ 53" by (simp add: example_view_def)
  assume "distinct (map group_id (fst (getGroup_calls example_env
       (replicate (2 ^ 53 + 2)
          (''Changes'', example_provider,
           [\<lparr>uri = ''file:///r/b.txt'', status = New, staged = False\<rparr>]))
       example_view)))"
  then have "distinct (map ?f [0..<2 ^ 53 + 2])"
    by (simp only: getGroup_calls_replicate [OF r z])
  then have inj: "inj_on ?f (set [0..<2 ^ 53 + 2])" by (simp only: distinct_map)
  have m1: "(2 ^ 53 :: nat) \<in> set [0..<2 ^ 53 + 2]" by simp
  have m2: "(2 ^ 53 + 1 :: nat) \<in> set [0..<2 ^ 53 + 2]" by simp
  have e: "?f (2 ^ 53) = ?f (2 ^ 53 + 1)" by (simp add: example_view_def)
  from inj_onD [OF inj e m1 m2] show False by simp
qed

subsection \<open>The order of the resources of a group\<close>

lemma find_skip:
  "\<forall>a \<in> set as. \<not> P a \<Longrightarrow> find P (as @ bs) = find P bs"
  by (induction as) simp_all

lemma lastIndexOf_last:
  assumes "c \<notin> set ys"
  shows "lastIndexOf (xs @ c # ys) c = int (length xs)"
proof -
  let ?s = "xs @ c # ys"
  have "[0..<length ?s] = [0..<Suc (length xs)] @ [Suc (length xs)..<Suc (length xs) + length ys]"
    using upt_add_eq_append [of 0 "Suc (length xs)" "length ys"] by simp
  then have r: "rev [0..<length ?s] =
      rev [Suc (length xs)..<Suc (length xs) + length ys] @ length xs # rev [0..<length xs]"
    by simp
  have "\<forall>i \<in> set (rev [Suc (length xs)..<Suc (length xs) + length ys]). \<not> ?s ! i = c"
  proof
    fix i assume "i \<in> set (rev [Suc (length xs)..<Suc (length xs) + length ys])"
    then have i: "Suc (length xs) \<le> i" "i - Suc (length xs) < length ys" by auto
    then have "?s ! i = ys ! (i - Suc (length xs))"
      by (simp add: nth_append nth_Cons')
    moreover from i(2) have "ys ! (i - Suc (length xs)) \<in> set ys" by (rule nth_mem)
    ultimately show "\<not> ?s ! i = c" using assms by auto
  qed
  then have "find (\<lambda>i. ?s ! i = c) (rev [0..<length ?s]) =
      find (\<lambda>i. ?s ! i = c) (length xs # rev [0..<length xs])"
    unfolding r by (rule find_skip)
  also have "\<dots> = Some (length xs)" by simp
  finally show ?thesis by (simp add: lastIndexOf_def)
qed

lemma lastIndexOf_absent:
  assumes "c \<notin> set s"
  shows "lastIndexOf s c = - 1"
proof -
  have "find (\<lambda>i. s ! i = c) (rev [0..<length s]) = None"
    using assms by (auto simp: find_None_iff)
  then show ?thesis by (simp add: lastIndexOf_def)
qed

lemma lastSegment_last:
  "CHR ''/'' \<notin> set ys \<Longrightarrow> lastSegment (xs @ CHR ''/'' # ys) = CHR ''/'' # ys"
  by (simp add: lastSegment_def lastIndexOf_last substring_def)

lemma lastSegment_absent:
  "CHR ''/'' \<notin> set s \<Longrightarrow> lastSegment s = s"
  by (simp add: lastSegment_def lastIndexOf_absent substring_def)

lemma set_sort_insert: "set (sort_insert cmp x ys) = insert x (set ys)"
  using mset_sort_insert [of cmp x ys, THEN arg_cong, of set_mset] by simp

lemma sorted_sort_insert:
  assumes total: "\<And>a b. cmp a b \<le> 0 \<or> cmp b a \<le> 0"
    and trans: "\<And>a b c. cmp a b \<le> 0 \<Longrightarrow> cmp b c \<le> 0 \<Longrightarrow> cmp a c \<le> 0"
  shows "sorted_wrt (\<lambda>a b. cmp a b \<le> 0) ys \<Longrightarrow>
         sorted_wrt (\<lambda>a b. cmp a b \<le> 0) (sort_insert cmp x ys)"
proof (induction ys)
  case Nil
  then show ?case by simp
next
  case (Cons y ys)
  show ?case
  proof (cases "cmp x y \<le> 0")
    case True
    have "cmp x z \<le> 0" if "z \<in> set ys" for z
      using Cons.prems that trans [OF True] by auto
    with True Cons.prems show ?thesis by auto
  next
    case False
    with total [of x y] have "cmp y x \<le> 0" by simp
    with False Cons show ?thesis by (auto simp: set_sort_insert)
  qed
qed

lemma sorted_Array_sort:
  assumes total: "\<And>a b. cmp a b \<le> 0 \<or> cmp b a \<le> 0"
    and trans: "\<And>a b c. cmp a b \<le> 0 \<Longrightarrow> cmp b c \<le> 0 \<Longrightarrow> cmp a c \<le> 0"
  shows "sorted_wrt (\<lambda>a b. cmp a b \<le> 0) (Array_sort cmp xs)"
proof (induction xs)
  case Nil
  then show ?case by (simp add: Array_sort_def)
next
  case (Cons x xs)
  have "Array_sort cmp (x # xs) = sort_insert cmp x (Array_sort cmp xs)"
    by (simp add: Array_sort_def)
  moreover have "sorted_wrt (\<lambda>a b. cmp a b \<le> 0) (sort_insert cmp x (Array_sort cmp xs))"
    by (rule sorted_sort_insert [OF total trans Cons])
  ultimately show ?case by simp
qed

lemma filter_sort_insert:
  assumes "\<And>y. P x \<Longrightarrow> P y \<Longrightarrow> cmp x y \<le> 0"
  shows "filter P (sort_insert cmp x ys) = (if P x then x # filter P ys else filter P ys)"
proof (induction ys)
  case Nil
  then show ?case by simp
next
  case (Cons y ys)
  show ?case
  proof (cases "cmp x y \<le> 0")
    case True
    then show ?thesis by simp
  next
    case False
    with assms [of y] have "\<not> (P x \<and> P y)" by auto
    with False Cons show ?thesis by auto
  qed
qed

lemma filter_Array_sort:
  assumes "\<And>x y. P x \<Longrightarrow> P y \<Longrightarrow> cmp x y \<le> 0"
  shows "filter P (Array_sort cmp xs) = filter P xs"
proof (induction xs)
  case Nil
  then show ?case by (simp add: Array_sort_def)
next
  case (Cons x xs)
  have "Array_sort cmp (x # xs) = sort_insert cmp x (Array_sort cmp xs)"
    by (simp add: Array_sort_def)
  then have "filter P (Array_sort cmp (x # xs)) =
      (if P x then x # filter P (Array_sort cmp xs) else filter P (Array_sort cmp xs))"
    using filter_sort_insert [of P x cmp "Array_sort cmp xs"] assms by simp
  with Cons show ?case by simp
qed


text \<open>
  C4. The resources of every group built by \<^verbatim>\<open>getGroup\<close> are sorted by the last
  segment of the source URI, the part of the stringified URI from its last \<^verbatim>\<open>/\<close>
  on, under \<^verbatim>\<open>localeCompare\<close>, and the sort is stable: the resources whose
  segments compare equal to a given string keep the order of the bucket. The comparison
  of the host is taken to be consistent, that is total and transitive.
\<close>

theorem getGroup_resources_sorted_stable:
  assumes total: "\<And>a b. localeCompare env a b \<le> 0 \<or> localeCompare env b a \<le> 0"
    and trans: "\<And>a b c. localeCompare env a b \<le> 0 \<Longrightarrow> localeCompare env b c \<le> 0
                  \<Longrightarrow> localeCompare env a c \<le> 0"
    and g: "getGroup env lbl prov cs st = (Inr g, st')"
  shows "sorted_wrt
           (\<lambda>l r. localeCompare env (lastSegment (toString env (sourceUri l)))
                    (lastSegment (toString env (sourceUri r))) \<le> 0)
           (resources g) \<and>
         (\<exists>rs. buildResources env (iconLookups st) cs = Inr rs \<and> map open_change rs = cs \<and>
            mset (resources g) = mset rs \<and>
            (\<forall>k. filter (\<lambda>r. localeCompare env (lastSegment (toString env (sourceUri r))) k \<le> 0 \<and>
                            localeCompare env k (lastSegment (toString env (sourceUri r))) \<le> 0)
                    (resources g) =
                  filter (\<lambda>r. localeCompare env (lastSegment (toString env (sourceUri r))) k \<le> 0 \<and>
                            localeCompare env k (lastSegment (toString env (sourceUri r))) \<le> 0)
                    rs)) \<and>
         (\<forall>xs ys. CHR ''/'' \<notin> set ys \<longrightarrow> lastSegment (xs @ CHR ''/'' # ys) = CHR ''/'' # ys) \<and>
         (\<forall>s. CHR ''/'' \<notin> set s \<longrightarrow> lastSegment s = s)"
proof -
  from g obtain rs where rs: "buildResources env (iconLookups st) cs = Inr rs"
    and res: "resources g = Array_sort (sortCompare env) rs"
    by (auto simp: getGroup_def split: sum.splits)
  have t: "sortCompare env a b \<le> 0 \<or> sortCompare env b a \<le> 0" for a b
    unfolding sortCompare_def by (rule total)
  have tr: "sortCompare env a b \<le> 0 \<Longrightarrow> sortCompare env b c \<le> 0 \<Longrightarrow> sortCompare env a c \<le> 0"
    for a b c
    unfolding sortCompare_def by (rule trans)
  have "sorted_wrt (\<lambda>l r. sortCompare env l r \<le> 0) (Array_sort (sortCompare env) rs)"
    using t tr by (rule sorted_Array_sort)
  then have s: "sorted_wrt
           (\<lambda>l r. localeCompare env (lastSegment (toString env (sourceUri l)))
                    (lastSegment (toString env (sourceUri r))) \<le> 0)
           (resources g)"
    by (simp only: res sortCompare_def)
  have st: "filter (\<lambda>r. localeCompare env (lastSegment (toString env (sourceUri r))) k \<le> 0 \<and>
                        localeCompare env k (lastSegment (toString env (sourceUri r))) \<le> 0)
                 (resources g) =
            filter (\<lambda>r. localeCompare env (lastSegment (toString env (sourceUri r))) k \<le> 0 \<and>
                        localeCompare env k (lastSegment (toString env (sourceUri r))) \<le> 0)
                 rs" for k
    unfolding res
    by (rule filter_Array_sort) (auto simp: sortCompare_def intro: trans)
  have m: "mset (resources g) = mset rs" by (simp add: res mset_Array_sort)
  from rs have oc: "map open_change rs = cs" by (rule resources_open_change)
  from s rs oc m st show ?thesis
    by (auto simp: lastSegment_last lastSegment_absent)
qed

lemma codeUnitCompare_le: "(codeUnitCompare a b \<le> 0) = (a \<le> b)"
  by (auto simp: codeUnitCompare_def)


lemma getGroup_sort_bucket:
  "getGroup example_env ''Changes'' example_provider sort_bucket example_view =
     (Inr \<lparr>label = ''Changes'', hideWhenEmpty = False, group_id = ''Changes_0'',
           provider = ''scm0'',
           resources =
             [\<lparr>sourceUri = Parsed ''file:///r/z/a.txt'', icon = ''fa fa-file'', letter = ''M'',
               color = ''var(--theia-brand-color0)'',
               open_change = \<lparr>uri = ''file:///r/z/a.txt'', status = Modified, staged = False\<rparr>\<rparr>,
              \<lparr>sourceUri = Parsed ''file:///r/y/a.txt'', icon = ''fa fa-file'', letter = ''D'',
               color = ''var(--theia-warn-color0)'',
               open_change = \<lparr>uri = ''file:///r/y/a.txt'', status = Deleted, staged = False\<rparr>\<rparr>,
              \<lparr>sourceUri = Parsed ''file:///r/b.txt'', icon = ''fa fa-file'', letter = ''N'',
               color = ''var(--theia-success-color0)'',
               open_change = \<lparr>uri = ''file:///r/b.txt'', status = New, staged = False\<rparr>\<rparr>]\<rparr>,
      example_view\<lparr>iconLookups := 3, SCM_GROUP_ID := 1\<rparr>)"
  by (simp add: getGroup_def buildResources_def numbered_def upt_rec [of 0] upt_rec [of 1]
        upt_rec [of 2] upt_rec [of 3]
        sort_bucket_def mkResource_def example_env_def getColor_def
        GitFileStatus_reverse_def Array_sort_def sortCompare_def lastSegment_def
        lastIndexOf_def substring_def codeUnitCompare_def example_view_def example_provider_def
        js_increment_def Number_toString.simps [of 0] digit_def)


theorem getGroup_resources_sorted_stable_witness:
  "\<exists>g st'. getGroup example_env ''Changes'' example_provider sort_bucket example_view = (Inr g, st') \<and>
      sorted_wrt
        (\<lambda>l r. localeCompare example_env (lastSegment (toString example_env (sourceUri l)))
                 (lastSegment (toString example_env (sourceUri r))) \<le> 0)
        (resources g) \<and>
      map (\<lambda>r. uri (open_change r)) (resources g) =
        [''file:///r/z/a.txt'', ''file:///r/y/a.txt'', ''file:///r/b.txt'']"
proof -
  have tot: "localeCompare example_env a b \<le> 0 \<or> localeCompare example_env b a \<le> 0" for a b
    by (simp add: example_env_def codeUnitCompare_le linear)
  have tr: "localeCompare example_env a b \<le> 0 \<Longrightarrow> localeCompare example_env b c \<le> 0
        \<Longrightarrow> localeCompare example_env a c \<le> 0" for a b c
    by (simp add: example_env_def codeUnitCompare_le)
  have s: "sorted_wrt
        (\<lambda>l r. localeCompare example_env (lastSegment (toString example_env (sourceUri l)))
                 (lastSegment (toString example_env (sourceUri r))) \<le> 0)
        (resources g)"
    if "getGroup example_env ''Changes'' example_provider sort_bucket example_view = (Inr g, st')"
    for g st'
    using getGroup_resources_sorted_stable [where env = example_env, OF tot tr that]
    by (rule conjunct1)
  show ?thesis
    apply (rule exI, rule exI, intro conjI)
      apply (rule getGroup_sort_bucket)
     apply (rule s [OF getGroup_sort_bucket])
    apply simp
    done
qed

subsection \<open>The provider hub\<close>

text \<open>
  C7, as amended. On the provider hub, setting \<^verbatim>\<open>groups\<close> replaces the stored
  groups and fires nothing; \<^verbatim>\<open>fireChangeResources\<close> fires the resources-changed
  notification without payload and \<^verbatim>\<open>fireChangeStatusBarCommands\<close> fires the
  commands-changed notification with the list it is given, and neither changes the stored
  groups: a listener called by either reads the groups stored at that moment. The hub
  stores no commands: \<^verbatim>\<open>statusBarCommands\<close> reads \<^verbatim>\<open>undefined\<close> during and
  after the notification. The callback of the refresh handler sets the groups first and
  then fires the commands-changed and the resources-changed notification, so a listener
  called by either of the two reads the newly set groups.
\<close>

theorem provider_hub_transitions:
  "get_groups (set_groups gs p) = Some gs \<and>
   fired (set_groups gs p) = fired p \<and>
   fired (fireChangeResources p) =
     fired p @ [\<lparr>n_event = DidChangeResources, n_groups = get_groups p,
                 n_statusBarCommands = None\<rparr>] \<and>
   get_groups (fireChangeResources p) = get_groups p \<and>
   fired (fireChangeStatusBarCommands cmds p) =
     fired p @ [\<lparr>n_event = DidChangeStatusBarCommands cmds, n_groups = get_groups p,
                 n_statusBarCommands = None\<rparr>] \<and>
   get_groups (fireChangeStatusBarCommands cmds p) = get_groups p \<and>
   get_statusBarCommands (fireChangeStatusBarCommands cmds p) = None \<and>
   get_groups (publishGroups w gs p) = Some gs \<and>
   fired (publishGroups w gs p) =
     fired p @
       [\<lparr>n_event = DidChangeStatusBarCommands
                     [\<lparr>cmd_id = ''git.checkout'', cmd_text = checkoutText w,
                       cmd_tooltip = None, cmd_command = Some ''git.checkout''\<rparr>],
         n_groups = Some gs, n_statusBarCommands = None\<rparr>,
        \<lparr>n_event = DidChangeResources, n_groups = Some gs, n_statusBarCommands = None\<rparr>]"
  by (simp add: get_groups_def set_groups_def fireChangeResources_def notify_def
        fireChangeStatusBarCommands_def get_statusBarCommands_def publishGroups_def)

theorem provider_hub_transitions_witness:
  "get_groups (set_groups [] example_provider) = Some [] \<and>
   fired (set_groups [] example_provider) = [] \<and>
   fired (fireChangeResources example_provider) =
     [\<lparr>n_event = DidChangeResources, n_groups = None, n_statusBarCommands = None\<rparr>] \<and>
   fired (fireChangeStatusBarCommands [example_command] example_provider) =
     [\<lparr>n_event = DidChangeStatusBarCommands [example_command], n_groups = None,
       n_statusBarCommands = None\<rparr>] \<and>
   get_statusBarCommands (fireChangeStatusBarCommands [example_command] example_provider) = None \<and>
   map n_groups (fired (publishGroups example_status [] example_provider)) = [Some [], Some []]"
  using provider_hub_transitions [of "[]" example_provider "[example_command]" example_status]
  by (simp add: example_provider_def get_groups_def)

text \<open>
  C7, as stated, fails: setting \<^verbatim>\<open>groups\<close> fires no resources-changed
  notification, and after the commands-changed notification \<^verbatim>\<open>statusBarCommands\<close>
  does not read the list that was fired.
\<close>

theorem provider_hub_setters_counterexample:
  "map n_event (fired (set_groups [] example_provider))
     \<noteq> map n_event (fired example_provider) @ [DidChangeResources] \<and>
   get_statusBarCommands (fireChangeStatusBarCommands [example_command] example_provider)
     \<noteq> Some [example_command]"
  by (simp add: set_groups_def get_statusBarCommands_def)

subsection \<open>The amend-commit command\<close>

lemma rethrown_iff: "rethrown e = (e \<noteq> ErrorInstance ''User abort.'')"
  by (cases e) (simp_all add: rethrown_def)

text \<open>
  C9. In the handler of the amend-commit command, when collecting the commit message fails,
  the error is swallowed exactly when it is an instance of \<^verbatim>\<open>Error\<close> whose
  message is \<^verbatim>\<open>User abort.\<close>; every other error is rethrown; and no commit is
  made, in the abort case in particular.
\<close>

theorem commitAmend_swallows_user_abort:
  assumes "commitMessageForAmend = Inl e"
  shows "snd (commitAmend widget selectedRepository commitMessageForAmend doCommit) = [] \<and>
         (widget \<and> selectedRepository \<noteq> None \<longrightarrow>
            fst (commitAmend widget selectedRepository commitMessageForAmend doCommit) =
              (if e = ErrorInstance ''User abort.'' then None else Some e)) \<and>
         (\<not> (widget \<and> selectedRepository \<noteq> None) \<longrightarrow>
            fst (commitAmend widget selectedRepository commitMessageForAmend doCommit) = None)"
  using assms
  by (cases selectedRepository) (simp_all add: commitAmend_def rethrown_iff)

theorem commitAmend_swallows_user_abort_witness:
  "commitAmend True (Some \<lparr>localUri = ''file:///r''\<rparr>) (Inl (ErrorInstance ''User abort.''))
     (\<lambda>r opt msg. None) = (None, []) \<and>
   commitAmend True (Some \<lparr>localUri = ''file:///r''\<rparr>) (Inl (ErrorInstance ''Canceled''))
     (\<lambda>r opt msg. None) = (Some (ErrorInstance ''Canceled''), []) \<and>
   commitAmend True (Some \<lparr>localUri = ''file:///r''\<rparr>) (Inl (NonError (Some ''User abort.'')))
     (\<lambda>r opt msg. None) = (Some (NonError (Some ''User abort.'')), [])"
proof -
  have a: "Inl (ErrorInstance ''User abort.'') = (Inl (ErrorInstance ''User abort.'') :: thrown + string)"
    and b: "Inl (ErrorInstance ''Canceled'') = (Inl (ErrorInstance ''Canceled'') :: thrown + string)"
    and c: "Inl (NonError (Some ''User abort.'')) = (Inl (NonError (Some ''User abort.'')) :: thrown + string)"
    by simp_all
  from commitAmend_swallows_user_abort [OF a, of True "Some \<lparr>localUri = ''file:///r''\<rparr>" "\<lambda>r opt msg. None"]
    commitAmend_swallows_user_abort [OF b, of True "Some \<lparr>localUri = ''file:///r''\<rparr>" "\<lambda>r opt msg. None"]
    commitAmend_swallows_user_abort [OF c, of True "Some \<lparr>localUri = ''file:///r''\<rparr>" "\<lambda>r opt msg. None"]
  show ?thesis by (simp add: prod_eq_iff)
qed

subsection \<open>The repository tracker\<close>

lemma findAdded_same: "findAdded rs rs = None"
  by (auto simp: findAdded_def find_None_iff list_all_iff)

lemma findRemoved_same: "findRemoved rs rs = None"
  by (auto simp: findRemoved_def find_None_iff list_all_iff)

lemma findAdded_Some:
  "findAdded allRepositories dirty = Some repo \<Longrightarrow>
     repo \<in> set allRepositories \<and> localUri repo \<notin> localUri ` set dirty"
  by (auto simp: findAdded_def find_Some_iff list_all_iff)

lemma findRemoved_Some:
  "findRemoved allRepositories dirty = Some repo \<Longrightarrow>
     repo \<in> set dirty \<and> localUri repo \<notin> localUri ` set allRepositories"
  by (auto simp: findRemoved_def find_Some_iff list_all_iff)

lemma handleAdded_calls:
  "snd (handleAdded service allRepositories s) = [] \<or>
   (\<exists>repo. snd (handleAdded service allRepositories s)
              = [RegisterScmProvider (newProviderFor (fst s) repo)]
      \<and> repo \<in> set allRepositories
      \<and> localUri repo \<notin> localUri ` set (dirtyRepositories (fst s)))"
  by (auto simp: handleAdded_def dest: findAdded_Some split: option.splits)

lemma handleAdded_dirty:
  "dirtyRepositories (fst (fst (handleAdded service allRepositories s)))
     = dirtyRepositories (fst s)"
  by (simp add: handleAdded_def registerScmProvider_def split: option.splits)

lemma handleRemoved_calls:
  "snd (handleRemoved service allRepositories s) = [] \<or>
   (\<exists>r repo. snd (handleRemoved service allRepositories s) = [DisposeRepository r]
      \<and> r \<in> set (svc_repositories service (snd s))
      \<and> sr_rootUri r = Some (localUri repo)
      \<and> repo \<in> set (dirtyRepositories (fst s))
      \<and> localUri repo \<notin> localUri ` set allRepositories)"
proof (cases "findRemoved allRepositories (dirtyRepositories (fst s))")
  case None
  then show ?thesis by (simp add: handleRemoved_def)
next
  case (Some removed)
  note rem = this
  show ?thesis
  proof (cases "find (\<lambda>scmRepo. sr_rootUri scmRepo = Some (localUri removed))
                  (svc_repositories service (snd s))")
    case None
    with rem show ?thesis by (simp add: handleRemoved_def)
  next
    case (Some r)
    then have "r \<in> set (svc_repositories service (snd s))" "sr_rootUri r = Some (localUri removed)"
      by (auto simp: find_Some_iff)
    moreover from rem Some have
      "snd (handleRemoved service allRepositories s) = [DisposeRepository r]"
      by (simp add: handleRemoved_def)
    ultimately show ?thesis using findRemoved_Some [OF rem] by blast
  qed
qed

lemma handleAdded_same:
  "dirtyRepositories (fst s) = allRepositories \<Longrightarrow> handleAdded service allRepositories s = (s, [])"
  by (simp add: handleAdded_def findAdded_same)

lemma handleRemoved_same:
  "dirtyRepositories (fst s) = allRepositories \<Longrightarrow> handleRemoved service allRepositories s = (s, [])"
  by (simp add: handleRemoved_def findRemoved_same)

lemma check_dirty:
  "dirtyRepositories (fst (fst (checkNewOrRemovedRepositories service allRepositories s)))
     = allRepositories"
  by (simp add: checkNewOrRemovedRepositories_def Let_def)

lemma check_same:
  assumes "dirtyRepositories (fst s) = allRepositories"
  shows "checkNewOrRemovedRepositories service allRepositories s = (s, [])"
proof (cases s)
  case (Pair st svc)
  with assms have "st\<lparr>dirtyRepositories := allRepositories\<rparr> = st" by auto
  with assms Pair show ?thesis
    by (simp add: checkNewOrRemovedRepositories_def Let_def handleAdded_same handleRemoved_same)
qed

lemma check_calls:
  "snd (checkNewOrRemovedRepositories service allRepositories s) =
     snd (handleAdded service allRepositories s)
     @ snd (handleRemoved service allRepositories (fst (handleAdded service allRepositories s)))"
  by (simp add: checkNewOrRemovedRepositories_def Let_def)

text \<open>
  C8. One call of \<^verbatim>\<open>checkNewOrRemovedRepositories\<close> registers at most one
  provider, for a repository of the current list that was not tracked, and disposes at
  most one repository of the service, for a tracked repository that is not in the current
  list. A second call with the same list registers nothing, disposes nothing and leaves
  the state as it is.
\<close>

theorem checkNewOrRemovedRepositories_idempotent:
  "length (filter is_register (snd (checkNewOrRemovedRepositories service allRepositories s))) \<le> 1 \<and>
   length (filter is_dispose (snd (checkNewOrRemovedRepositories service allRepositories s))) \<le> 1 \<and>
   (\<forall>p. RegisterScmProvider p \<in> set (snd (checkNewOrRemovedRepositories service allRepositories s))
      \<longrightarrow> (\<exists>repo \<in> set allRepositories. p_rootUri p = Some (localUri repo) \<and>
             localUri repo \<notin> localUri ` set (dirtyRepositories (fst s)))) \<and>
   (\<forall>r. DisposeRepository r \<in> set (snd (checkNewOrRemovedRepositories service allRepositories s))
      \<longrightarrow> (\<exists>repo \<in> set (dirtyRepositories (fst s)). sr_rootUri r = Some (localUri repo) \<and>
             localUri repo \<notin> localUri ` set allRepositories)) \<and>
   checkNewOrRemovedRepositories service allRepositories
       (fst (checkNewOrRemovedRepositories service allRepositories s))
     = (fst (checkNewOrRemovedRepositories service allRepositories s), [])"
proof -
  let ?a = "handleAdded service allRepositories s"
  let ?r = "handleRemoved service allRepositories (fst ?a)"
  note a = handleAdded_calls [of service allRepositories s]
  note r = handleRemoved_calls [of service allRepositories "fst ?a"]
  have d: "dirtyRepositories (fst (fst ?a)) = dirtyRepositories (fst s)"
    by (rule handleAdded_dirty)
  have c1: "length (filter is_register (snd ?a @ snd ?r)) \<le> 1"
    using a r by auto
  have c2: "length (filter is_dispose (snd ?a @ snd ?r)) \<le> 1"
    using a r by auto
  have c3: "\<forall>p. RegisterScmProvider p \<in> set (snd ?a @ snd ?r)
      \<longrightarrow> (\<exists>repo \<in> set allRepositories. p_rootUri p = Some (localUri repo) \<and>
             localUri repo \<notin> localUri ` set (dirtyRepositories (fst s)))"
    using a r by (auto simp: newProviderFor_def new_ScmProviderImpl_def)
  have c4: "\<forall>x. DisposeRepository x \<in> set (snd ?a @ snd ?r)
      \<longrightarrow> (\<exists>repo \<in> set (dirtyRepositories (fst s)). sr_rootUri x = Some (localUri repo) \<and>
             localUri repo \<notin> localUri ` set allRepositories)"
    using a r unfolding d by auto
  have c5: "checkNewOrRemovedRepositories service allRepositories
       (fst (checkNewOrRemovedRepositories service allRepositories s))
     = (fst (checkNewOrRemovedRepositories service allRepositories s), [])"
    by (rule check_same) (rule check_dirty)
  from c1 c2 c3 c4 c5 show ?thesis unfolding check_calls by (intro conjI)
qed

theorem checkNewOrRemovedRepositories_idempotent_witness:
  "snd (checkNewOrRemovedRepositories example_service [\<lparr>localUri = ''file:///q''\<rparr>] example_tracked) =
     [RegisterScmProvider
        \<lparr>p_id = ''scm1'', p_contextValue = ''Git'', p_label = ''q'',
         p_rootUri = Some ''file:///q'', p_groups = None, p_count = None, fired = []\<rparr>,
      DisposeRepository \<lparr>sr_provider_id = ''scm0'', sr_rootUri = Some ''file:///r''\<rparr>] \<and>
   snd (checkNewOrRemovedRepositories example_service [\<lparr>localUri = ''file:///q''\<rparr>]
          (fst (checkNewOrRemovedRepositories example_service [\<lparr>localUri = ''file:///q''\<rparr>]
                  example_tracked))) = []"
proof -
  have "snd (checkNewOrRemovedRepositories example_service [\<lparr>localUri = ''file:///q''\<rparr>] example_tracked) =
     [RegisterScmProvider
        \<lparr>p_id = ''scm1'', p_contextValue = ''Git'', p_label = ''q'',
         p_rootUri = Some ''file:///q'', p_groups = None, p_count = None, fired = []\<rparr>,
      DisposeRepository \<lparr>sr_provider_id = ''scm0'', sr_rootUri = Some ''file:///r''\<rparr>]"
    by (simp add: checkNewOrRemovedRepositories_def handleAdded_def handleRemoved_def
          findAdded_def findRemoved_def registerScmProvider_def newProviderFor_def
          new_ScmProviderImpl_def example_service_def example_tracked_def example_view_def
          example_provider_def lastIndexOf_def substring_def Number_toString.simps [of 1] Number_toString.simps [of "Suc 0"]
          digit_def Let_def)
  moreover have "snd (checkNewOrRemovedRepositories example_service [\<lparr>localUri = ''file:///q''\<rparr>]
          (fst (checkNewOrRemovedRepositories example_service [\<lparr>localUri = ''file:///q''\<rparr>]
                  example_tracked))) = []"
    using checkNewOrRemovedRepositories_idempotent
      [of example_service "[\<lparr>localUri = ''file:///q''\<rparr>]" example_tracked]
    by simp
  ultimately show ?thesis by (rule conjI)
qed

subsection \<open>The Git event handler\<close>

lemma findIndex_Some: "findIndex P xs = Some i \<Longrightarrow> i < length xs \<and> P (xs ! i)"
  by (induction xs arbitrary: i) (auto split: if_splits)

lemma handleAdded_effect:
  "stagedChanges (fst (fst (handleAdded service allRepositories s))) = stagedChanges (fst s) \<and>
   mergeChanges (fst (fst (handleAdded service allRepositories s))) = mergeChanges (fst s) \<and>
   iconLookups (fst (fst (handleAdded service allRepositories s))) = iconLookups (fst s) \<and>
   (\<forall>p \<in> set (scmProviders (fst (fst (handleAdded service allRepositories s)))).
      p \<in> set (scmProviders (fst s)) \<or> (p_groups p = None \<and> fired p = []))"
  by (auto simp: handleAdded_def registerScmProvider_def newProviderFor_def
        new_ScmProviderImpl_def split: option.splits)

lemma removeProvider_effect:
  "stagedChanges (removeProvider r st) = stagedChanges st \<and>
   mergeChanges (removeProvider r st) = mergeChanges st \<and>
   iconLookups (removeProvider r st) = iconLookups st \<and>
   set (scmProviders (removeProvider r st)) \<subseteq> set (scmProviders st)"
proof (cases "findIndex (\<lambda>p. p_id p = sr_provider_id r) (scmProviders st)")
  case None
  then show ?thesis by (simp add: removeProvider_def)
next
  case (Some i)
  have "set (splice1 i (scmProviders st)) \<subseteq> set (scmProviders st)"
    using set_take_subset [of i "scmProviders st"] set_drop_subset [of "Suc i" "scmProviders st"]
    by (auto simp: splice1_def)
  with Some show ?thesis by (simp add: removeProvider_def)
qed

lemma handleRemoved_effect:
  "stagedChanges (fst (fst (handleRemoved service allRepositories s))) = stagedChanges (fst s) \<and>
   mergeChanges (fst (fst (handleRemoved service allRepositories s))) = mergeChanges (fst s) \<and>
   iconLookups (fst (fst (handleRemoved service allRepositories s))) = iconLookups (fst s) \<and>
   set (scmProviders (fst (fst (handleRemoved service allRepositories s))))
     \<subseteq> set (scmProviders (fst s))"
  using removeProvider_effect
  by (auto simp: handleRemoved_def split: option.splits)

lemma check_effect:
  "stagedChanges (fst (fst (checkNewOrRemovedRepositories service allRepositories s)))
     = stagedChanges (fst s) \<and>
   mergeChanges (fst (fst (checkNewOrRemovedRepositories service allRepositories s)))
     = mergeChanges (fst s) \<and>
   iconLookups (fst (fst (checkNewOrRemovedRepositories service allRepositories s)))
     = iconLookups (fst s) \<and>
   (\<forall>p \<in> set (scmProviders (fst (fst (checkNewOrRemovedRepositories service allRepositories s)))).
      p \<in> set (scmProviders (fst s)) \<or> (p_groups p = None \<and> fired p = []))"
proof -
  let ?a = "handleAdded service allRepositories s"
  let ?r = "handleRemoved service allRepositories (fst ?a)"
  note a = handleAdded_effect [of service allRepositories s]
  note r = handleRemoved_effect [of service allRepositories "fst ?a"]
  have "\<forall>p \<in> set (scmProviders (fst (fst ?r))).
          p \<in> set (scmProviders (fst s)) \<or> (p_groups p = None \<and> fired p = [])"
    using a r by blast
  with a r show ?thesis
    by (simp add: checkNewOrRemovedRepositories_def Let_def)
qed

lemma notify_effect:
  "p_groups (notify ev p) = p_groups p \<and>
   (ev \<noteq> DidChangeResources \<longrightarrow> resourcesNotifications (notify ev p) = resourcesNotifications p)"
  by (simp add: notify_def resourcesNotifications_def)

lemma map_update_same:
  "i < length xs \<Longrightarrow> f y = f (xs ! i) \<Longrightarrow> map f (xs[i := y]) = map f xs"
  by (simp add: map_update list_update_same_conv)

lemma updateSync_effect:
  "stagedChanges (fst (updateSyncStatusBarEntry sel syncing u st)) = stagedChanges st \<and>
   mergeChanges (fst (updateSyncStatusBarEntry sel syncing u st)) = mergeChanges st \<and>
   iconLookups (fst (updateSyncStatusBarEntry sel syncing u st)) = iconLookups st \<and>
   map p_groups (scmProviders (fst (updateSyncStatusBarEntry sel syncing u st)))
     = map p_groups (scmProviders st) \<and>
   map resourcesNotifications (scmProviders (fst (updateSyncStatusBarEntry sel syncing u st)))
     = map resourcesNotifications (scmProviders st)"
proof (cases "getStatusBarEntry sel syncing")
  case None
  then show ?thesis by (simp add: updateSyncStatusBarEntry_def)
next
  case (Some entry)
  show ?thesis
  proof (cases "findIndex (\<lambda>provider. p_rootUri provider = u) (scmProviders st)")
    case None
    with Some show ?thesis by (simp add: updateSyncStatusBarEntry_def)
  next
    case (Some i)
    then have i: "i < length (scmProviders st)" by (simp add: findIndex_Some)
    let ?p = "fireChangeStatusBarCommands
                [\<lparr>cmd_id = ''vcs-sync-status'', cmd_text = entry_text entry,
                  cmd_tooltip = entry_tooltip entry, cmd_command = entry_command entry\<rparr>]
                (scmProviders st ! i)"
    have "map p_groups ((scmProviders st)[i := ?p]) = map p_groups (scmProviders st)"
      using i by (intro map_update_same) (simp_all add: fireChangeStatusBarCommands_def notify_effect)
    moreover have "map resourcesNotifications ((scmProviders st)[i := ?p])
        = map resourcesNotifications (scmProviders st)"
      using i by (intro map_update_same) (simp_all add: fireChangeStatusBarCommands_def notify_effect)
    ultimately show ?thesis
      using Some \<open>getStatusBarEntry sel syncing = Some entry\<close>
      by (simp add: updateSyncStatusBarEntry_def)
  qed
qed

text \<open>
  C6. If the lookup of the icon of one change of one bucket rejects, the call of
  \<^verbatim>\<open>getGroups\<close> rejects, and across the whole handler of the Git event the field
  \<^verbatim>\<open>groups\<close> of every provider keeps its value and no provider fires a
  resources-changed notification: after the handler the providers have the groups and
  the resources-changed notifications they had when
  \<^verbatim>\<open>checkNewOrRemovedRepositories\<close> returned, and each provider is then one of the
  providers from before the event or a new one without groups and notifications. The
  cached staged and merge sets keep their values too. The rejection is unhandled.
\<close>

theorem icon_rejection_publishes_nothing:
  assumes "classify (Some (ev_status event)) = (stagedC, unstagedC, mergeC)"
    and "k < length (stagedC @ unstagedC @ mergeC)"
    and "getIcon env (iconLookups (fst s) + k)
           (new_URI env (uri ((stagedC @ unstagedC @ mergeC) ! k))) = Inl e"
  shows
    "(let st1 = fst (fst (checkNewOrRemovedRepositories service allRepositories s));
          out = onGitEvent env service allRepositories selectedRepositoryStatus isSyncing event s
      in (\<exists>e' st'. getGroups env (Some (ev_status event)) prov (fst s) = (Inl e', st')
            \<and> stagedChanges st' = stagedChanges (fst s)
            \<and> mergeChanges st' = mergeChanges (fst s)
            \<and> scmProviders st' = scmProviders (fst s)) \<and>
         map p_groups (scmProviders (contribution out)) = map p_groups (scmProviders st1) \<and>
         map resourcesNotifications (scmProviders (contribution out))
           = map resourcesNotifications (scmProviders st1) \<and>
         (\<forall>p \<in> set (scmProviders st1).
            p \<in> set (scmProviders (fst s)) \<or> (p_groups p = None \<and> fired p = [])) \<and>
         stagedChanges (contribution out) = stagedChanges (fst s) \<and>
         mergeChanges (contribution out) = mergeChanges (fst s) \<and>
         (findIndex (\<lambda>provider. p_rootUri provider = Some (localUri (source event)))
            (scmProviders st1) \<noteq> None
            \<longrightarrow> unhandledRejection out \<noteq> None))"
proof -
  let ?st1 = "fst (fst (checkNewOrRemovedRepositories service allRepositories s))"
  let ?sy = "fst (updateSyncStatusBarEntry selectedRepositoryStatus isSyncing
                    (Some (localUri (source event))) ?st1)"
  let ?out = "onGitEvent env service allRepositories selectedRepositoryStatus isSyncing event s"
  note c = check_effect [of service allRepositories s]
  note u = updateSync_effect [of selectedRepositoryStatus isSyncing
      "Some (localUri (source event))" ?st1]
  have rej: "\<exists>e' st'. getGroups env (Some (ev_status event)) p st = (Inl e', st')
            \<and> stagedChanges st' = stagedChanges st \<and> mergeChanges st' = mergeChanges st
            \<and> scmProviders st' = scmProviders st"
    if "iconLookups st = iconLookups (fst s)" for p st
  proof -
    from assms(3) that have
      "getIcon env (iconLookups st + k)
         (new_URI env (uri ((stagedC @ unstagedC @ mergeC) ! k))) = Inl e"
      by simp
    from getGroups_rejects [OF assms(1,2) this, of p] obtain e' st' where
      "getGroups env (Some (ev_status event)) p st = (Inl e', st')" by blast
    with getGroups_cases [OF assms(1), of env p st] show ?thesis by auto
  qed
  have g0: "\<exists>e' st'. getGroups env (Some (ev_status event)) prov (fst s) = (Inl e', st')
            \<and> stagedChanges st' = stagedChanges (fst s)
            \<and> mergeChanges st' = mergeChanges (fst s)
            \<and> scmProviders st' = scmProviders (fst s)"
    by (rule rej) simp
  have sy: "iconLookups ?sy = iconLookups (fst s)" using c u by simp
  have settled:
    "scmProviders (contribution ?out) = scmProviders ?sy \<and>
     stagedChanges (contribution ?out) = stagedChanges ?sy \<and>
     mergeChanges (contribution ?out) = mergeChanges ?sy \<and>
     (findIndex (\<lambda>provider. p_rootUri provider = Some (localUri (source event)))
        (scmProviders ?st1) \<noteq> None
        \<longrightarrow> unhandledRejection ?out \<noteq> None)"
  proof (cases "findIndex (\<lambda>provider. p_rootUri provider = Some (localUri (source event)))
                  (scmProviders ?st1)")
    case None
    then show ?thesis by (simp add: onGitEvent_def Let_def)
  next
    case (Some i)
    from rej [OF sy, of "scmProviders ?sy ! i"] obtain e' st' where
      "getGroups env (Some (ev_status event)) (scmProviders ?sy ! i) ?sy = (Inl e', st')"
      "stagedChanges st' = stagedChanges ?sy" "mergeChanges st' = mergeChanges ?sy"
      "scmProviders st' = scmProviders ?sy"
      by blast
    then have "publishAt env event i ?sy = (Some e', st')"
      by (simp add: publishAt_def)
    with Some \<open>scmProviders st' = scmProviders ?sy\<close> \<open>stagedChanges st' = stagedChanges ?sy\<close>
      \<open>mergeChanges st' = mergeChanges ?sy\<close>
    show ?thesis by (simp add: onGitEvent_def Let_def)
  qed
  from g0 settled c u show ?thesis unfolding Let_def by simp
qed

lemma example_tracked_unchanged:
  "checkNewOrRemovedRepositories example_service [\<lparr>localUri = ''file:///r''\<rparr>] example_tracked
     = (example_tracked, [])"
  by (rule check_same) (simp add: example_tracked_def example_view_def)

lemma handler_example_fired:
  "map (\<lambda>p. map n_event (fired p)) (scmProviders (contribution
     (onGitEvent failing_env example_service [\<lparr>localUri = ''file:///r''\<rparr>]
        (Some example_status) False example_event example_tracked)))
   = [[DidChangeStatusBarCommands
         [\<lparr>cmd_id = ''vcs-sync-status'', cmd_text = ''$(cloud-upload)'',
           cmd_tooltip = Some ''Publish Changes'', cmd_command = Some ''git.publish''\<rparr>]]]"
  unfolding onGitEvent_def Let_def example_tracked_unchanged
  by (simp add: example_tracked_def
        updateSyncStatusBarEntry_def getStatusBarEntry_def truthy_def example_status_def
        example_event_def example_view_def example_provider_def publishAt_def
        getGroups_def classify_Some example_changes_def pushGroup_def getGroup_def
        buildResources_def numbered_def upt_rec [of 0] upt_rec [of 1] mkResource_def
        failing_env_def example_env_def fireChangeStatusBarCommands_def notify_def
        get_groups_def get_statusBarCommands_def getColor_def GitFileStatus_reverse_def
        Array_sort_def js_increment_def)

theorem icon_rejection_publishes_nothing_witness:
  "unhandledRejection
     (onGitEvent failing_env example_service [\<lparr>localUri = ''file:///r''\<rparr>]
        (Some example_status) False example_event example_tracked) \<noteq> None \<and>
   map p_groups (scmProviders (contribution
     (onGitEvent failing_env example_service [\<lparr>localUri = ''file:///r''\<rparr>]
        (Some example_status) False example_event example_tracked))) = [None] \<and>
   map resourcesNotifications (scmProviders (contribution
     (onGitEvent failing_env example_service [\<lparr>localUri = ''file:///r''\<rparr>]
        (Some example_status) False example_event example_tracked))) = [[]] \<and>
   stagedChanges (contribution
     (onGitEvent failing_env example_service [\<lparr>localUri = ''file:///r''\<rparr>]
        (Some example_status) False example_event example_tracked))
     = stagedChanges example_view \<and>
   mergeChanges (contribution
     (onGitEvent failing_env example_service [\<lparr>localUri = ''file:///r''\<rparr>]
        (Some example_status) False example_event example_tracked))
     = mergeChanges example_view \<and>
   map (\<lambda>p. map n_event (fired p)) (scmProviders (contribution
     (onGitEvent failing_env example_service [\<lparr>localUri = ''file:///r''\<rparr>]
        (Some example_status) False example_event example_tracked)))
   = [[DidChangeStatusBarCommands
         [\<lparr>cmd_id = ''vcs-sync-status'', cmd_text = ''$(cloud-upload)'',
           cmd_tooltip = Some ''Publish Changes'', cmd_command = Some ''git.publish''\<rparr>]]]"
proof -
  have c: "classify (Some (ev_status example_event)) =
     ([\<lparr>uri = ''file:///r/a.txt'', status = Modified, staged = True\<rparr>],
      [\<lparr>uri = ''file:///r/b.txt'', status = New, staged = False\<rparr>],
      [\<lparr>uri = ''file:///r/c.txt'', status = Conflicted, staged = False\<rparr>])"
    by (simp add: example_event_def classify_example)
  have k: "1 < length ([\<lparr>uri = ''file:///r/a.txt'', status = Modified, staged = True\<rparr>]
            @ [\<lparr>uri = ''file:///r/b.txt'', status = New, staged = False\<rparr>]
            @ [\<lparr>uri = ''file:///r/c.txt'', status = Conflicted, staged = False\<rparr>])"
    by simp
  have i: "getIcon failing_env (iconLookups (fst example_tracked) + 1)
             (new_URI failing_env
               (uri (([\<lparr>uri = ''file:///r/a.txt'', status = Modified, staged = True\<rparr>]
                  @ [\<lparr>uri = ''file:///r/b.txt'', status = New, staged = False\<rparr>]
                  @ [\<lparr>uri = ''file:///r/c.txt'', status = Conflicted, staged = False\<rparr>]) ! 1)))
           = Inl (ErrorInstance ''no icon'')"
    by (simp add: failing_env_def example_env_def example_tracked_def example_view_def)
  have f: "findIndex (\<lambda>provider. p_rootUri provider = Some (localUri (source example_event)))
             (scmProviders example_view) \<noteq> None"
    by (simp add: example_event_def example_view_def example_provider_def)
  have p: "map p_groups (scmProviders example_view) = [None]"
    "map resourcesNotifications (scmProviders example_view) = [[]]"
    by (simp_all add: example_view_def example_provider_def resourcesNotifications_def)
  have t: "fst example_tracked = example_view" by (simp add: example_tracked_def)
  from icon_rejection_publishes_nothing [OF c k i, of example_service
      "[\<lparr>localUri = ''file:///r''\<rparr>]" "Some example_status" False example_provider]
    f p
  have "unhandledRejection
     (onGitEvent failing_env example_service [\<lparr>localUri = ''file:///r''\<rparr>]
        (Some example_status) False example_event example_tracked) \<noteq> None \<and>
   map p_groups (scmProviders (contribution
     (onGitEvent failing_env example_service [\<lparr>localUri = ''file:///r''\<rparr>]
        (Some example_status) False example_event example_tracked))) = [None] \<and>
   map resourcesNotifications (scmProviders (contribution
     (onGitEvent failing_env example_service [\<lparr>localUri = ''file:///r''\<rparr>]
        (Some example_status) False example_event example_tracked))) = [[]] \<and>
   stagedChanges (contribution
     (onGitEvent failing_env example_service [\<lparr>localUri = ''file:///r''\<rparr>]
        (Some example_status) False example_event example_tracked))
     = stagedChanges example_view \<and>
   mergeChanges (contribution
     (onGitEvent failing_env example_service [\<lparr>localUri = ''file:///r''\<rparr>]
        (Some example_status) False example_event example_tracked))
     = mergeChanges example_view"
    unfolding Let_def example_tracked_unchanged by (simp add: t)
  with handler_example_fired show ?thesis by simp
qed

end
